theory Spec2Isabelle
  imports Main
begin

section \<open>Data model of the R1CS builder\<close>

text \<open>
  The builder of \<^verbatim>\<open>package r1cs\<close> (type \<^verbatim>\<open>R1CSRefactor\<close>) realises every
  frontend variable as a linear expression over wires. The types \<^verbatim>\<open>compiled.Term\<close>,
  \<^verbatim>\<open>compiled.Variable\<close> and the coefficient pool are declared in a package whose
  sources are not part of the development at hand; they are modelled from the
  specification's data model.
\<close>

datatype Visibility = Unset | Internal | Secret | Public | Virtual

text \<open>
  Modelled from the spec: the coefficient pool (\<^verbatim>\<open>cs.Coeffs\<close>, \<^verbatim>\<open>cs.CoeffID\<close>) is
  missing. The pool is content addressed (two equal values produce the same ID, and
  \<^verbatim>\<open>get(intern x) = x\<close>), so a coefficient ID is represented by the big integer it
  denotes: \<^verbatim>\<open>Pack(vID, cs.CoeffID(c), vis)\<close> is \<open>Pack vID c vis\<close>. The reserved IDs
  \<^verbatim>\<open>CoeffIdZero, CoeffIdOne, CoeffIdMinusOne, CoeffIdTwo\<close> are the values 0, 1, -1, 2.
  Coefficients are big integers: they are not reduced modulo the field order unless the
  code does so.
\<close>

datatype Term = Pack (VariableID: nat) (CoeffValue: int) (TermVisibility: Visibility)

text \<open>
  \<^verbatim>\<open>compiled.Variable{LinExp, IsBoolean *bool}\<close>: the marker is a pointer, shared by
  every copy of the handle. The pointer is the index of a cell of the \<open>heap\<close> below.
\<close>

record Variable =
  LinExp :: "Term list"
  IsBoolean :: nat

datatype R1C = R1C (R1C_L: "Term list") (R1C_R: "Term list") (R1C_O: "Term list")

datatype HintFunction = HintIsZero | HintIthBit

record Hint =
  HintID :: HintFunction
  HintWire :: nat
  HintInputs :: "Term list list"

datatype DebugChunk = DText string | DTerms "Term list"

datatype BackendID = GROTH16 | PLONK

text \<open>
  The builder state. \<open>Modulus\<close> stands for \<^verbatim>\<open>cs.CurveID.Info().Fr.Modulus()\<close>, a table of
  an external library, taken as a parameter. \<open>heap\<close> holds the \<^verbatim>\<open>bool\<close> cells the
  \<^verbatim>\<open>IsBoolean\<close> pointers refer to; a cell is allocated by \<^verbatim>\<open>t := false; &t\<close>.
\<close>

record R1CSRefactor =
  Constraints :: "R1C list"
  NbInternalVariables :: nat
  MHints :: "Hint list"
  MDebug :: "(nat \<times> DebugChunk list) list"
  BackendID :: BackendID
  Modulus :: int
  heap :: "bool list"

text \<open>
  An argument of the API is an \<^verbatim>\<open>interface{}\<close>: a variable handle, a value convertible
  to a big integer, or the nil interface (an unset \<^verbatim>\<open>frontend.Variable\<close>).
\<close>

datatype Input = IVar Variable | IConst int | INil

datatype panic =
    InverseByConstantZero
  | DivByConstantZero
  | InvalidN
  | NotAConstant
  | UnsupportedInput
  | IndexOutOfRange
  | AssertIsBooleanFailed int
  | AssertIsEqualFailed

type_synonym 'a result = "panic + 'a \<times> R1CSRefactor"

definition andThen :: "panic + 'a \<times> 's \<Rightarrow> ('a \<Rightarrow> 's \<Rightarrow> panic + 'b \<times> 's) \<Rightarrow> panic + 'b \<times> 's" where
  "andThen m f = (case m of Inl e \<Rightarrow> Inl e | Inr (x, s) \<Rightarrow> f x s)"

section \<open>Semantics of linear expressions and constraints\<close>

text \<open>
  An assignment gives every wire, named by visibility and ID, a value. The specification
  gives the semantics of a linear expression as \<open>\<Sum> c\<^sub>i \<cdot> x\<^sub>i\<close> and of an R1CS constraint
  as \<open>\<langle>L\<rangle> \<cdot> \<langle>R\<rangle> = \<langle>O\<rangle>\<close> in the field; the field is the integers modulo \<open>q\<close>.
\<close>

type_synonym assignment = "Visibility \<Rightarrow> nat \<Rightarrow> int"

definition evalTerm :: "assignment \<Rightarrow> Term \<Rightarrow> int" where
  "evalTerm w t = CoeffValue t * w (TermVisibility t) (VariableID t)"

definition evalLinExp :: "int \<Rightarrow> assignment \<Rightarrow> Term list \<Rightarrow> int" where
  "evalLinExp q w le = sum_list (map (evalTerm w) le) mod q"

definition satisfiesR1C :: "int \<Rightarrow> assignment \<Rightarrow> R1C \<Rightarrow> bool" where
  "satisfiesR1C q w c =
     ((evalLinExp q w (R1C_L c) * evalLinExp q w (R1C_R c)) mod q = evalLinExp q w (R1C_O c))"

definition satisfies :: "int \<Rightarrow> assignment \<Rightarrow> R1C list \<Rightarrow> bool" where
  "satisfies q w cs = list_all (satisfiesR1C q w) cs"

text \<open>The ONE wire carries the value 1 in every assignment of interest.\<close>

definition oneWire :: "assignment \<Rightarrow> bool" where
  "oneWire w = (w Virtual 0 = 1)"

text \<open>The linear expression an input stands for: a handle's own, and \<open>ONE_WIRE * n\<close> for
  a constant \<open>n\<close>.\<close>

definition inputLinExp :: "Input \<Rightarrow> Term list" where
  "inputLinExp i = (case i of IVar v \<Rightarrow> LinExp v | IConst n \<Rightarrow> [Pack 0 n Virtual] | INil \<Rightarrow> [])"

definition evalInput :: "int \<Rightarrow> assignment \<Rightarrow> Input \<Rightarrow> int" where
  "evalInput q w i = evalLinExp q w (inputLinExp i)"

text \<open>A prime modulus, in a form that evaluates on a concrete number.\<close>

definition primeModulus :: "int \<Rightarrow> bool" where
  "primeModulus q = (1 < q \<and> (\<forall>m \<in> {2..<nat q}. \<not> m dvd nat q))"

section \<open>Parts of the builder that the API relies on\<close>

text \<open>\<^verbatim>\<open>t := false; &t\<close>: a fresh cell holding false.\<close>

definition newBool :: "bool \<Rightarrow> R1CSRefactor \<Rightarrow> nat \<times> R1CSRefactor" where
  "newBool b cs = (length (heap cs), cs\<lparr>heap := heap cs @ [b]\<rparr>)"

text \<open>
  Modelled from the spec: \<^verbatim>\<open>cs.one()\<close> is missing. A constant is "in the form
  ONE_WIRE * coeff" (comment of \<^verbatim>\<open>constant\<close>), and the visibility \<open>Virtual\<close> denotes the
  ONE-wire sentinel. Each call returns a handle with a marker of its own.
\<close>

definition one :: "R1CSRefactor \<Rightarrow> Variable \<times> R1CSRefactor" where
  "one cs = (case newBool False cs of (t, cs') \<Rightarrow> (\<lparr>LinExp = [Pack 0 1 Virtual], IsBoolean = t\<rparr>, cs'))"

text \<open>Modelled from the spec: \<^verbatim>\<open>Variable.IsConstant\<close> is missing; a constant is one term on
  the ONE wire.\<close>

definition isOneWire :: "Term \<Rightarrow> bool" where
  "isOneWire t = (VariableID t = 0 \<and> TermVisibility t = Virtual)"

definition IsConstant :: "Variable \<Rightarrow> bool" where
  "IsConstant v = (case LinExp v of [t] \<Rightarrow> isOneWire t | _ \<Rightarrow> False)"

text \<open>Modelled from the spec: \<^verbatim>\<open>cs.constantValue\<close> is missing ("Will panic if
  v.IsConstant() == false", comment of \<^verbatim>\<open>ConstantValue\<close>); the value of a constant is
  the coefficient of its term.\<close>

definition constantValue :: "Variable \<Rightarrow> panic + int" where
  "constantValue v = (if IsConstant v then Inr (CoeffValue (hd (LinExp v))) else Inl NotAConstant)"

text \<open>Modelled from the spec: \<^verbatim>\<open>cs.setCoeff\<close> is missing; it replaces the coefficient of
  a term by the interned value.\<close>

definition setCoeff :: "Term \<Rightarrow> int \<Rightarrow> Term" where
  "setCoeff t n = Pack (VariableID t) n (TermVisibility t)"

text \<open>
  Modelled from the spec: \<^verbatim>\<open>Variable.AssertIsSet\<close> is missing and the specification
  names no failure of it. An unset \<^verbatim>\<open>frontend.Variable\<close> is the nil interface, \<open>INil\<close>,
  which the conversion to a big integer rejects; a handle that the builder returned is
  set, also when its reduced linear expression has no term left.
\<close>

definition AssertIsSet :: "Variable \<Rightarrow> panic option" where
  "AssertIsSet v = None"

text \<open>Modelled from the spec: \<^verbatim>\<open>cs.newInternalVariable\<close> is missing; it allocates the
  next internal wire, with coefficient 1 and a marker of its own.\<close>

definition newInternalVariable :: "R1CSRefactor \<Rightarrow> Variable \<times> R1CSRefactor" where
  "newInternalVariable cs =
     (case newBool False cs of (t, cs') \<Rightarrow>
        (\<lparr>LinExp = [Pack (NbInternalVariables cs') 1 Internal], IsBoolean = t\<rparr>,
         cs'\<lparr>NbInternalVariables := Suc (NbInternalVariables cs')\<rparr>))"

definition newR1C :: "Variable \<Rightarrow> Variable \<Rightarrow> Variable \<Rightarrow> R1C" where
  "newR1C l r o' = R1C (LinExp l) (LinExp r) (LinExp o')"

text \<open>Modelled from the spec: \<^verbatim>\<open>cs.AddDebugInfo\<close> and \<^verbatim>\<open>cs.addConstraint\<close> are missing.
  A constraint is appended to the ordered constraint list; its debug information, a
  sequence of text and term chunks, is recorded under the index of the constraint.\<close>

definition AddDebugInfo :: "string \<Rightarrow> DebugChunk list \<Rightarrow> DebugChunk list" where
  "AddDebugInfo name args = DText name # args"

definition addConstraint :: "R1C \<Rightarrow> DebugChunk list \<Rightarrow> R1CSRefactor \<Rightarrow> R1CSRefactor" where
  "addConstraint r1c debug cs =
     cs\<lparr>Constraints := Constraints cs @ [r1c], MDebug := MDebug cs @ [(length (Constraints cs), debug)]\<rparr>"

text \<open>
  Modelled from the spec: \<^verbatim>\<open>cs.reduce\<close> is missing. After \<open>reduce\<close> a linear expression
  has at most one term per (variable ID, visibility), no term with coefficient zero, and
  its terms are ordered by (visibility, variable ID). Coefficients of merged terms are
  added in the field.
\<close>

fun visRank :: "Visibility \<Rightarrow> nat" where
  "visRank Unset = 0"
| "visRank Internal = 1"
| "visRank Secret = 2"
| "visRank Public = 3"
| "visRank Virtual = 4"

definition sameWire :: "Term \<Rightarrow> Term \<Rightarrow> bool" where
  "sameWire t u = (TermVisibility t = TermVisibility u \<and> VariableID t = VariableID u)"

definition wireBefore :: "Term \<Rightarrow> Term \<Rightarrow> bool" where
  "wireBefore t u =
     (visRank (TermVisibility t) < visRank (TermVisibility u)
      \<or> (TermVisibility t = TermVisibility u \<and> VariableID t < VariableID u))"

fun insertTerm :: "int \<Rightarrow> Term \<Rightarrow> Term list \<Rightarrow> Term list" where
  "insertTerm q t [] = [t]"
| "insertTerm q t (u # us) =
     (if sameWire t u then setCoeff u ((CoeffValue u + CoeffValue t) mod q) # us
      else if wireBefore t u then t # u # us
      else u # insertTerm q t us)"

definition reduceLinExp :: "int \<Rightarrow> Term list \<Rightarrow> Term list" where
  "reduceLinExp q le = filter (\<lambda>t. CoeffValue t \<noteq> 0) (foldr (insertTerm q) le [])"

definition reduce :: "R1CSRefactor \<Rightarrow> Variable \<Rightarrow> Variable" where
  "reduce cs v = v\<lparr>LinExp := reduceLinExp (Modulus cs) (LinExp v)\<rparr>"

section \<open>The API of the R1CS builder\<close>

text \<open>\<^verbatim>\<open>constant\<close> (here \<open>constantV\<close>): a handle is returned as it is; any other input is converted to a big
  integer \<open>n\<close> and becomes \<open>ONE_WIRE * n\<close>. The conversion \<^verbatim>\<open>frontend.FromInterface\<close>
  is missing; the nil interface is not convertible.\<close>

definition constantV :: "Input \<Rightarrow> R1CSRefactor \<Rightarrow> Variable result" where
  "constantV input cs =
     (case input of
        IVar t \<Rightarrow> (case AssertIsSet t of Some e \<Rightarrow> Inl e | None \<Rightarrow> Inr (t, cs))
      | IConst n \<Rightarrow>
          (if n = 1 then Inr (one cs)
           else (case one cs of (r, cs') \<Rightarrow>
                   Inr (r\<lparr>LinExp := (LinExp r)[0 := setCoeff (LinExp r ! 0) n]\<rparr>, cs')))
      | INil \<Rightarrow> Inl UnsupportedInput)"

text \<open>\<^verbatim>\<open>toVariables\<close>: converts the inputs from left to right and returns the total size
  of their linear expressions.\<close>

fun toVariablesLoop :: "Input list \<Rightarrow> Variable list \<Rightarrow> nat \<Rightarrow> R1CSRefactor \<Rightarrow> (Variable list \<times> nat) result" where
  "toVariablesLoop [] r s cs = Inr ((r, s), cs)"
| "toVariablesLoop (i # ins) r s cs =
     andThen (constantV i cs) (\<lambda>v cs'. toVariablesLoop ins (r @ [v]) (s + length (LinExp v)) cs')"

definition toVariables :: "Input list \<Rightarrow> R1CSRefactor \<Rightarrow> (Variable list \<times> nat) result" where
  "toVariables ins cs = toVariablesLoop ins [] 0 cs"

text \<open>\<^verbatim>\<open>negateLinExp\<close>: returns \<open>-le\<close>, term by term.\<close>

definition negateLinExp :: "Term list \<Rightarrow> Term list" where
  "negateLinExp l = map (\<lambda>t. Pack (VariableID t) (- CoeffValue t) (TermVisibility t)) l"

text \<open>The tail shared by \<^verbatim>\<open>Add\<close> and \<^verbatim>\<open>Sub\<close>: with the PLONK backend a reduced
  expression that is not a single term is bound to a fresh internal wire.\<close>

definition plonkSplit :: "Variable \<Rightarrow> R1CSRefactor \<Rightarrow> Variable result" where
  "plonkSplit res cs =
     (if BackendID cs = PLONK then
        (if length (LinExp res) = 1 then Inr (res, cs)
         else (case newInternalVariable cs of (res', cs1) \<Rightarrow>
                (case one cs1 of (o1, cs2) \<Rightarrow>
                   Inr (res', cs2\<lparr>Constraints := Constraints cs2 @ [newR1C o1 res res']\<rparr>))))
      else Inr (res, cs))"

definition Add :: "Input \<Rightarrow> Input \<Rightarrow> Input list \<Rightarrow> R1CSRefactor \<Rightarrow> Variable result" where
  "Add i1 i2 ins cs =
     andThen (toVariables (i1 # i2 # ins) cs) (\<lambda>(vars, s) cs1.
       (case newBool False cs1 of (t, cs2) \<Rightarrow>
          (let res = \<lparr>LinExp = concat (map LinExp vars), IsBoolean = t\<rparr>;
               res = reduce cs2 res
           in plonkSplit res cs2)))"

definition Neg :: "Input \<Rightarrow> R1CSRefactor \<Rightarrow> Variable result" where
  "Neg i cs =
     andThen (toVariables [i] cs) (\<lambda>(vars, s) cs1.
       (if IsConstant (vars ! 0) then
          (case constantValue (vars ! 0) of Inl e \<Rightarrow> Inl e
           | Inr n \<Rightarrow> constantV (IConst (- n)) cs1)
        else Inr (\<lparr>LinExp = negateLinExp (LinExp (vars ! 0)), IsBoolean = IsBoolean (vars ! 0)\<rparr>, cs1)))"

definition Sub :: "Input \<Rightarrow> Input \<Rightarrow> Input list \<Rightarrow> R1CSRefactor \<Rightarrow> Variable result" where
  "Sub i1 i2 ins cs =
     andThen (toVariables (i1 # i2 # ins) cs) (\<lambda>(vars, s) cs1.
       (case newBool False cs1 of (t, cs2) \<Rightarrow>
          (let res = \<lparr>LinExp = LinExp (vars ! 0) @ concat (map (\<lambda>v. negateLinExp (LinExp v)) (tl vars)),
                      IsBoolean = t\<rparr>;
               res = reduce cs2 res
           in plonkSplit res cs2)))"

text \<open>\<^verbatim>\<open>mulConstant\<close>: the coefficients of \<open>v1\<close> are multiplied by the constant; the switch
  on the reserved coefficient IDs is a switch on the values they denote.\<close>

definition mulCoeff :: "int \<Rightarrow> int \<Rightarrow> int" where
  "mulCoeff lambda c =
     (if c = - 1 then - lambda
      else if c = 0 then 0
      else if c = 1 then lambda
      else if c = 2 then lambda + lambda
      else c * lambda)"

definition mulConstant :: "Variable \<Rightarrow> Variable \<Rightarrow> R1CSRefactor \<Rightarrow> Variable result" where
  "mulConstant v1 c cs =
     (case constantValue c of Inl e \<Rightarrow> Inl e
      | Inr lambda \<Rightarrow>
          (case newBool False cs of (t, cs') \<Rightarrow>
             Inr (\<lparr>LinExp = map (\<lambda>t. Pack (VariableID t) (mulCoeff lambda (CoeffValue t)) (TermVisibility t)) (LinExp v1),
                   IsBoolean = t\<rparr>, cs')))"

text \<open>The closure \<^verbatim>\<open>mul\<close> of \<^verbatim>\<open>Mul\<close>.\<close>

definition mul :: "Variable \<Rightarrow> Variable \<Rightarrow> R1CSRefactor \<Rightarrow> Variable result" where
  "mul v1 v2 cs =
     (if \<not> IsConstant v1 \<and> \<not> IsConstant v2 then
        (case newInternalVariable cs of (res, cs') \<Rightarrow>
           Inr (res, cs'\<lparr>Constraints := Constraints cs' @ [newR1C v1 v2 res]\<rparr>))
      else if IsConstant v1 \<and> IsConstant v2 then
        (case constantValue v1 of Inl e \<Rightarrow> Inl e
         | Inr b1 \<Rightarrow> (case constantValue v2 of Inl e \<Rightarrow> Inl e
         | Inr b2 \<Rightarrow> constantV (IConst ((b1 * b2) mod Modulus cs)) cs))
      else if IsConstant v1 then mulConstant v2 v1 cs
      else mulConstant v1 v2 cs)"

fun mulLoop :: "Variable \<Rightarrow> Variable list \<Rightarrow> R1CSRefactor \<Rightarrow> Variable result" where
  "mulLoop res [] cs = Inr (res, cs)"
| "mulLoop res (v # vs) cs = andThen (mul res v cs) (\<lambda>res' cs'. mulLoop res' vs cs')"

definition Mul :: "Input \<Rightarrow> Input \<Rightarrow> Input list \<Rightarrow> R1CSRefactor \<Rightarrow> Variable result" where
  "Mul i1 i2 ins cs =
     andThen (toVariables (i1 # i2 # ins) cs) (\<lambda>(vars, s) cs1.
       andThen (mul (vars ! 0) (vars ! 1) cs1) (\<lambda>res cs2. mulLoop res (drop 2 vars) cs2))"


text \<open>
  Modelled from the spec: \<^verbatim>\<open>cs.NewHint\<close> is missing. A hint record holds the hint kind,
  the output wire and the linear expressions of the inputs; the output is a fresh
  internal wire.
\<close>

definition NewHint :: "HintFunction \<Rightarrow> Input list \<Rightarrow> R1CSRefactor \<Rightarrow> Variable result" where
  "NewHint f inputs cs =
     (case newInternalVariable cs of (r, cs1) \<Rightarrow>
        andThen (toVariables inputs cs1) (\<lambda>(vars, s) cs2.
          Inr (r, cs2\<lparr>MHints := MHints cs2 @
                 [\<lparr>HintID = f, HintWire = VariableID (hd (LinExp r)), HintInputs = map LinExp vars\<rparr>]\<rparr>)))"

text \<open>Reading a marker through its pointer. A pointer of the program always refers to
  an allocated cell; an index outside the heap reads as false.\<close>

definition deref :: "bool list \<Rightarrow> nat \<Rightarrow> bool" where
  "deref h p = (p < length h \<and> h ! p)"

text \<open>
  Modelled from the spec: \<^verbatim>\<open>AssertIsBoolean\<close> of the R1CS builder is missing. It
  "fast-paths when wire already marked boolean (idempotent); otherwise emits
  \<open>a\<cdot>(1-a) = 0\<close> and marks the wire"; a constant other than 0 and 1 fails fast, as in
  the PLONK builder.
\<close>

definition AssertIsBoolean :: "Input \<Rightarrow> R1CSRefactor \<Rightarrow> unit result" where
  "AssertIsBoolean i1 cs =
     andThen (toVariables [i1] cs) (\<lambda>(vars, s) cs1.
       (let v = vars ! 0 in
        if IsConstant v then
          (case constantValue v of Inl e \<Rightarrow> Inl e
           | Inr c \<Rightarrow> if c = 0 \<or> c = 1 then Inr ((), cs1) else Inl (AssertIsBooleanFailed c))
        else if deref (heap cs1) (IsBoolean v) then Inr ((), cs1)
        else
          (let cs2 = cs1\<lparr>heap := (heap cs1)[IsBoolean v := True]\<rparr>;
               debug = AddDebugInfo ''assertIsBoolean'' [DTerms (LinExp v), DText '' == (0|1)'']
           in andThen (constantV (IConst 0) cs2) (\<lambda>o' cs3.
                (case one cs3 of (o1, cs4) \<Rightarrow>
                   (let v' = reduce cs4 (o1\<lparr>LinExp := LinExp o1 @ negateLinExp (LinExp v)\<rparr>)
                    in Inr ((), addConstraint (newR1C v v' o') debug cs4)))))))"

text \<open>
  Modelled from the spec: \<^verbatim>\<open>AssertIsEqual\<close> of the R1CS builder is missing:
  "constant/constant compares; else emits \<open>1 \<cdot> (a-b) = 0\<close>".
\<close>

definition AssertIsEqual :: "Input \<Rightarrow> Input \<Rightarrow> R1CSRefactor \<Rightarrow> unit result" where
  "AssertIsEqual i1 i2 cs =
     andThen (toVariables [i1, i2] cs) (\<lambda>(vars, s) cs1.
       (let a = vars ! 0; b = vars ! 1 in
        if IsConstant a \<and> IsConstant b then
          (if CoeffValue (hd (LinExp a)) = CoeffValue (hd (LinExp b)) then Inr ((), cs1)
           else Inl AssertIsEqualFailed)
        else
          (let debug = AddDebugInfo ''assertIsEqual'' [DTerms (LinExp a), DText '' == '', DTerms (LinExp b)]
           in (case one cs1 of (o1, cs2) \<Rightarrow>
                 andThen (constantV (IConst 0) cs2) (\<lambda>o' cs3.
                   (let d = reduce cs3 (a\<lparr>LinExp := LinExp a @ negateLinExp (LinExp b)\<rparr>)
                    in Inr ((), addConstraint (newR1C o1 d o') debug cs3)))))))"

text \<open>
  \<^verbatim>\<open>big.Int.BitLen\<close> and \<^verbatim>\<open>big.Int.ModInverse\<close> of the standard library.
  \<open>ModInverse g n\<close> is the inverse of \<open>g\<close> in \<open>[0, n)\<close>; when \<open>g\<close> has no inverse the receiver
  is left unchanged, and the callers below do not look at the returned nil.
\<close>

function bitLength :: "int \<Rightarrow> nat" where
  "bitLength n = (if n = 0 then 0 else Suc (bitLength (\<bar>n\<bar> div 2)))"
  by pat_completeness auto
termination
  by (relation "measure (\<lambda>n. nat \<bar>n\<bar>)") auto

declare bitLength.simps [simp del]

definition ModInverse :: "int \<Rightarrow> int \<Rightarrow> int" where
  "ModInverse g n =
     (case find (\<lambda>x. (g * x) mod n = 1 mod n) (map int [0..<nat n]) of
        Some x \<Rightarrow> x
      | None \<Rightarrow> g)"

text \<open>Modelled from the spec: \<^verbatim>\<open>cs.BitLen\<close> is missing; it is the number of bits needed
  to represent a field element.\<close>

definition BitLen :: "R1CSRefactor \<Rightarrow> nat" where
  "BitLen cs = bitLength (Modulus cs)"

definition Inverse :: "Input \<Rightarrow> R1CSRefactor \<Rightarrow> Variable result" where
  "Inverse i1 cs =
     andThen (toVariables [i1] cs) (\<lambda>(vars, s) cs1.
       (if IsConstant (vars ! 0) then
          (case constantValue (vars ! 0) of Inl e \<Rightarrow> Inl e
           | Inr c \<Rightarrow>
               if c = 0 then Inl InverseByConstantZero
               else constantV (IConst (ModInverse c (Modulus cs1))) cs1)
        else
          (case newInternalVariable cs1 of (res, cs2) \<Rightarrow>
             (let debug = AddDebugInfo ''inverse''
                            [DTerms (LinExp (vars ! 0)), DText ''*'', DTerms (LinExp res), DText '' == 1'']
              in (case one cs2 of (o1, cs3) \<Rightarrow>
                    Inr (res, addConstraint (newR1C res (vars ! 0) o1) debug cs3))))))"

text \<open>The branch of \<^verbatim>\<open>Div\<close> and \<^verbatim>\<open>DivUnchecked\<close> for a constant divisor is the same
  code in both.\<close>

definition divByConstant :: "Variable \<Rightarrow> Variable \<Rightarrow> R1CSRefactor \<Rightarrow> Variable result" where
  "divByConstant v1 v2 cs =
     (case constantValue v2 of Inl e \<Rightarrow> Inl e
      | Inr b2 \<Rightarrow>
          if b2 = 0 then Inl DivByConstantZero
          else
            (let q = Modulus cs; b2 = ModInverse b2 q in
             if IsConstant v1 then
               (case constantValue v1 of Inl e \<Rightarrow> Inl e
                | Inr b1 \<Rightarrow> constantV (IConst ((b2 * b1) mod q)) cs)
             else andThen (constantV (IConst b2) cs) (\<lambda>c cs'. mulConstant v1 c cs')))"

definition Div :: "Input \<Rightarrow> Input \<Rightarrow> R1CSRefactor \<Rightarrow> Variable result" where
  "Div i1 i2 cs =
     andThen (toVariables [i1, i2] cs) (\<lambda>(vars, s) cs1.
       (let v1 = vars ! 0; v2 = vars ! 1 in
        if \<not> IsConstant v2 then
          (case newInternalVariable cs1 of (res, cs2) \<Rightarrow>
             (let debug = AddDebugInfo ''div''
                            [DTerms (LinExp v1), DText ''/'', DTerms (LinExp v2), DText '' == '', DTerms (LinExp res)]
              in (case newInternalVariable cs2 of (v2Inv, cs3) \<Rightarrow>
                 (case one cs3 of (o1, cs4) \<Rightarrow>
                    (let cs5 = addConstraint (newR1C v2 v2Inv o1) debug cs4;
                         cs6 = addConstraint (newR1C v1 v2Inv res) debug cs5
                     in Inr (res, cs6))))))
        else divByConstant v1 v2 cs1))"

definition DivUnchecked :: "Input \<Rightarrow> Input \<Rightarrow> R1CSRefactor \<Rightarrow> Variable result" where
  "DivUnchecked i1 i2 cs =
     andThen (toVariables [i1, i2] cs) (\<lambda>(vars, s) cs1.
       (let v1 = vars ! 0; v2 = vars ! 1 in
        if \<not> IsConstant v2 then
          (case newInternalVariable cs1 of (res, cs2) \<Rightarrow>
             (let debug = AddDebugInfo ''div''
                            [DTerms (LinExp v1), DText ''/'', DTerms (LinExp v2), DText '' == '', DTerms (LinExp res)]
              in Inr (res, addConstraint (newR1C v2 res v1) debug cs2)))
        else divByConstant v1 v2 cs1))"

definition IsZero :: "Input \<Rightarrow> R1CSRefactor \<Rightarrow> Variable result" where
  "IsZero i1 cs =
     andThen (toVariables [i1] cs) (\<lambda>(vars, s) cs1.
       (let a = vars ! 0 in
        if IsConstant a then
          (case constantValue a of Inl e \<Rightarrow> Inl e
           | Inr c \<Rightarrow> if c = 0 then constantV (IConst 1) cs1 else constantV (IConst 0) cs1)
        else
          (let debug = AddDebugInfo ''isZero'' [DTerms (LinExp a)] in
           andThen (NewHint HintIsZero [IVar a] cs1) (\<lambda>m cs2.
           andThen (constantV (IConst 0) cs2) (\<lambda>z cs3.
           andThen (AssertIsBoolean (IVar m) (addConstraint (newR1C a m z) debug cs3)) (\<lambda>_ cs4.
           andThen (Add (IVar m) (IVar a) [] cs4) (\<lambda>ma cs5.
           andThen (Inverse (IVar ma) cs5) (\<lambda>_ cs6. Inr (m, cs6)))))))))"


text \<open>The loop of \<^verbatim>\<open>ToBinary\<close> on a constant: bit \<open>i\<close> of the big integer, for
  \<open>i = 0, \<dots>, nbBits - 1\<close>.\<close>

fun constantBitsLoop :: "int \<Rightarrow> nat list \<Rightarrow> Variable list \<Rightarrow> R1CSRefactor \<Rightarrow> Variable list result" where
  "constantBitsLoop c [] b cs = Inr (b, cs)"
| "constantBitsLoop c (i # is) b cs =
     andThen (constantV (IConst (if bit c i then 1 else 0)) cs)
       (\<lambda>v cs'. constantBitsLoop c is (b @ [v]) cs')"

text \<open>The loop of \<^verbatim>\<open>toBinary\<close>: \<open>c\<close> is \<open>2\<^sup>i\<close>, \<open>b\<close> the hinted bits and \<open>sb\<close> the scaled
  bits collected so far.\<close>

fun toBinaryLoop :: "Variable \<Rightarrow> bool \<Rightarrow> nat list \<Rightarrow> int \<Rightarrow> Variable list \<Rightarrow> Variable list
    \<Rightarrow> R1CSRefactor \<Rightarrow> (Variable list \<times> Variable list) result" where
  "toBinaryLoop a unsafe [] c b sb cs = Inr ((b, sb), cs)"
| "toBinaryLoop a unsafe (i # is) c b sb cs =
     andThen (NewHint HintIthBit [IVar a, IConst (int i)] cs) (\<lambda>bi cs1.
     andThen (Mul (IVar bi) (IConst c) [] cs1) (\<lambda>sbi cs2.
     andThen (if \<not> unsafe then AssertIsBoolean (IVar bi) cs2 else Inr ((), cs2)) (\<lambda>_ cs3.
       toBinaryLoop a unsafe is (2 * c) (b @ [bi]) (sb @ [sbi]) cs3)))"

text \<open>The part of \<^verbatim>\<open>toBinary\<close> after the test for a constant. With \<open>nbBits = 1\<close> the sum
  \<^verbatim>\<open>\<Sigma>bi\<close> is never assigned and reaches the last \<^verbatim>\<open>AssertIsEqual\<close> as the nil
  interface; with \<open>nbBits = 0\<close> the last branch indexes an empty slice.\<close>

definition toBinaryVar :: "Variable \<Rightarrow> nat \<Rightarrow> bool \<Rightarrow> R1CSRefactor \<Rightarrow> Variable list result" where
  "toBinaryVar a nbBits unsafe cs =
     (case AssertIsSet a of Some e \<Rightarrow> Inl e
      | None \<Rightarrow>
     andThen (toBinaryLoop a unsafe [0..<nbBits] 1 [] [] cs) (\<lambda>(b, sb) cs1.
     andThen
       (if nbBits = 1 then
          andThen (AssertIsEqual (IVar (sb ! 0)) (IVar a) cs1) (\<lambda>_ cs2. Inr (INil, cs2))
        else if nbBits = 2 then
          andThen (Add (IVar (sb ! 0)) (IVar (sb ! 1)) [] cs1) (\<lambda>r cs2. Inr (IVar r, cs2))
        else if length sb < 2 then Inl IndexOutOfRange
        else
          andThen (Add (IVar (sb ! 0)) (IVar (sb ! 1)) (map IVar (drop 2 sb)) cs1)
            (\<lambda>r cs2. Inr (IVar r, cs2)))
       (\<lambda>sigma cs2.
          andThen (AssertIsEqual sigma (IVar a) cs2) (\<lambda>_ cs3. Inr (b, cs3)))))"

text \<open>\<^verbatim>\<open>ToBinary\<close>: \<open>n\<close> is the variadic argument; one value gives the number of bits, no
  value (or more than one) leaves the default, the bit length of the field.\<close>

definition ToBinary :: "Input \<Rightarrow> int list \<Rightarrow> R1CSRefactor \<Rightarrow> Variable list result" where
  "ToBinary i1 n cs =
     (if length n = 1 \<and> n ! 0 < 0 then Inl InvalidN
      else
        (let nbBits = (if length n = 1 then nat (n ! 0) else BitLen cs) in
         andThen (toVariables [i1] cs) (\<lambda>(vars, s) cs1.
           (let a = vars ! 0 in
            if IsConstant a then
              (case constantValue a of Inl e \<Rightarrow> Inl e
               | Inr c \<Rightarrow> constantBitsLoop c [0..<nbBits] [] cs1)
            else toBinaryVar a nbBits False cs1))))"

definition toBinary :: "Variable \<Rightarrow> nat \<Rightarrow> bool \<Rightarrow> R1CSRefactor \<Rightarrow> Variable list result" where
  "toBinary a nbBits unsafe cs =
     (if IsConstant a then ToBinary (IVar a) [int nbBits] cs
      else toBinaryVar a nbBits unsafe cs)"

fun FromBinaryLoop :: "Variable list \<Rightarrow> int \<Rightarrow> Variable \<Rightarrow> R1CSRefactor \<Rightarrow> Variable result" where
  "FromBinaryLoop [] c res cs = Inr (res, cs)"
| "FromBinaryLoop (bi # bs) c res cs =
     andThen (Mul (IConst c) (IVar bi) [] cs) (\<lambda>v cs1.
     andThen (Add (IVar v) (IVar res) [] cs1) (\<lambda>res' cs2.
     andThen (AssertIsBoolean (IVar bi) cs2) (\<lambda>_ cs3.
       FromBinaryLoop bs (2 * c) res' cs3)))"

fun assertAllSet :: "Variable list \<Rightarrow> panic option" where
  "assertAllSet [] = None"
| "assertAllSet (v # vs) = (case AssertIsSet v of Some e \<Rightarrow> Some e | None \<Rightarrow> assertAllSet vs)"

definition FromBinary :: "Input list \<Rightarrow> R1CSRefactor \<Rightarrow> Variable result" where
  "FromBinary b' cs =
     andThen (toVariables b' cs) (\<lambda>(b, s) cs1.
       (case assertAllSet b of Some e \<Rightarrow> Inl e
        | None \<Rightarrow>
            andThen (constantV (IConst 0) cs1) (\<lambda>res cs2. FromBinaryLoop b 1 res cs2)))"

definition Select :: "Input \<Rightarrow> Input \<Rightarrow> Input \<Rightarrow> R1CSRefactor \<Rightarrow> Variable result" where
  "Select i0 i1 i2 cs =
     andThen (toVariables [i0, i1, i2] cs) (\<lambda>(vars, s) cs1.
       (let b = vars ! 0 in
        andThen (AssertIsBoolean (IVar b) cs1) (\<lambda>_ cs2.
          if IsConstant (vars ! 1) \<and> IsConstant (vars ! 2) then
            (case constantValue (vars ! 1) of Inl e \<Rightarrow> Inl e
             | Inr n1 \<Rightarrow> (case constantValue (vars ! 2) of Inl e \<Rightarrow> Inl e
             | Inr n2 \<Rightarrow>
                 (let diff = n1 - n2 in
                  andThen (Mul (IVar b) (IConst diff) [] cs2) (\<lambda>res cs3.
                    Add (IVar res) (IVar (vars ! 2)) [] cs3))))
          else if IsConstant (vars ! 1) \<and> constantValue (vars ! 1) = Inr 0 then
            andThen (Sub (IConst 1) (IVar (vars ! 0)) [] cs2) (\<lambda>v cs3.
              Mul (IVar v) (IVar (vars ! 2)) [] cs3)
          else
            andThen (Sub (IVar (vars ! 1)) (IVar (vars ! 2)) [] cs2) (\<lambda>v cs3.
            andThen (Mul (IVar b) (IVar v) [] cs3) (\<lambda>w cs4.
              Add (IVar w) (IVar (vars ! 2)) [] cs4)))))"

section \<open>The compiler driver\<close>

text \<open>
  \<^verbatim>\<open>compile\<close> of \<^verbatim>\<open>frontend/compile.go\<close>: the leaves of the circuit are allocated
  (\<^verbatim>\<open>parser.Visit\<close>, not part of the sources: the parameter \<open>visit\<close>), then the circuit's
  \<^verbatim>\<open>Define\<close> runs on the builder, and the builder is compiled (\<^verbatim>\<open>builder.Compile\<close>,
  the parameter \<open>finish\<close>). A panic raised while \<^verbatim>\<open>Define\<close> runs is recovered and
  returned as the error of the compilation.
\<close>

datatype compileError =
    VisitFailed
  | Recovered panic
  | DefineFailed string
  | CompileSystemFailed

definition compile ::
  "(R1CSRefactor \<Rightarrow> compileError + R1CSRefactor)
    \<Rightarrow> (R1CSRefactor \<Rightarrow> string option result)
    \<Rightarrow> (R1CSRefactor \<Rightarrow> compileError + 'ccs)
    \<Rightarrow> R1CSRefactor \<Rightarrow> compileError + 'ccs" where
  "compile visit define finish builder =
     (case visit builder of
        Inl e \<Rightarrow> Inl e
      | Inr b1 \<Rightarrow>
          (case define b1 of
             Inl p \<Rightarrow> Inl (Recovered p)
           | Inr (Some err, b2) \<Rightarrow> Inl (DefineFailed err)
           | Inr (None, b2) \<Rightarrow> finish b2))"

section \<open>Auxiliary notions for stating properties\<close>

definition constVar :: "int \<Rightarrow> nat \<Rightarrow> Variable" where
  "constVar n p = \<lparr>LinExp = [Pack 0 n Virtual], IsBoolean = p\<rparr>"

definition sameBuild :: "R1CSRefactor \<Rightarrow> R1CSRefactor \<Rightarrow> bool" where
  "sameBuild cs cs' =
     (Constraints cs' = Constraints cs \<and> NbInternalVariables cs' = NbInternalVariables cs
      \<and> MHints cs' = MHints cs \<and> MDebug cs' = MDebug cs \<and> BackendID cs' = BackendID cs
      \<and> Modulus cs' = Modulus cs
      \<and> heap cs' = heap cs @ replicate (length (heap cs') - length (heap cs)) False)"

definition extends :: "R1CSRefactor \<Rightarrow> R1CSRefactor \<Rightarrow> bool" where
  "extends cs cs' =
     (Modulus cs' = Modulus cs \<and> BackendID cs' = BackendID cs
      \<and> take (length (Constraints cs)) (Constraints cs') = Constraints cs
      \<and> NbInternalVariables cs \<le> NbInternalVariables cs'
      \<and> length (heap cs) \<le> length (heap cs'))"

text \<open>The value of an input that is a constant: a raw integer, or a handle of the form
  \<open>ONE_WIRE * c\<close>.\<close>

definition inputConstant :: "Input \<Rightarrow> int option" where
  "inputConstant i =
     (case i of
        IConst n \<Rightarrow> Some n
      | IVar v \<Rightarrow> (if IsConstant v then Some (CoeffValue (hd (LinExp v))) else None)
      | INil \<Rightarrow> None)"

text \<open>A small builder and some handles, for evaluating the model on concrete inputs. The
  modulus 13 stands in for the order of a curve's scalar field.\<close>

definition exampleBuilder :: "BackendID \<Rightarrow> R1CSRefactor" where
  "exampleBuilder b =
     \<lparr>Constraints = [], NbInternalVariables = 0, MHints = [], MDebug = [],
      BackendID = b, Modulus = 13, heap = [False, False, False]\<rparr>"

definition exampleX :: Variable where
  "exampleX = \<lparr>LinExp = [Pack 0 1 Secret], IsBoolean = 0\<rparr>"

definition exampleY :: Variable where
  "exampleY = \<lparr>LinExp = [Pack 1 1 Secret], IsBoolean = 1\<rparr>"

definition exampleS :: Variable where
  "exampleS = \<lparr>LinExp = [Pack 2 1 Secret], IsBoolean = 2\<rparr>"

text \<open>An assignment is given by the values of the secret and of the internal wires; the
  ONE wire is 1.\<close>

definition exampleAssignment :: "int list \<Rightarrow> int list \<Rightarrow> assignment" where
  "exampleAssignment secrets internals vis i =
     (case vis of
        Virtual \<Rightarrow> 1
      | Secret \<Rightarrow> (if i < length secrets then secrets ! i else 0)
      | Internal \<Rightarrow> (if i < length internals then internals ! i else 0)
      | _ \<Rightarrow> 0)"

text \<open>The boolean constraint \<open>v \<cdot> (1 - v) = 0\<close> of a linear expression, and what "asserted
  boolean" means for an input after a call: a constant is 0 or 1; a variable was already
  marked boolean, or its boolean constraint is in the system.\<close>

definition booleanConstraint :: "int \<Rightarrow> Term list \<Rightarrow> R1C" where
  "booleanConstraint q le =
     R1C le (reduceLinExp q (Pack 0 1 Virtual # negateLinExp le)) [Pack 0 0 Virtual]"

definition assertedBoolean :: "Input \<Rightarrow> R1CSRefactor \<Rightarrow> R1CSRefactor \<Rightarrow> bool" where
  "assertedBoolean i cs cs' =
     (case inputConstant i of
        Some c \<Rightarrow> c = 0 \<or> c = 1
      | None \<Rightarrow>
          (case i of
             IVar v \<Rightarrow> deref (heap cs) (IsBoolean v)
                        \<or> booleanConstraint (Modulus cs) (LinExp v) \<in> set (Constraints cs')
           | _ \<Rightarrow> False))"

text \<open>A linear expression that mentions only internal wires allocated so far: every
  internal wire of it has an ID below \<open>n\<close>.\<close>

definition internalBelow :: "nat \<Rightarrow> Term list \<Rightarrow> bool" where
  "internalBelow n le = list_all (\<lambda>t. TermVisibility t = Internal \<longrightarrow> VariableID t < n) le"

text \<open>
  Modelled from the spec: the hint functions of \<^verbatim>\<open>backend/hint\<close> are missing. The solver
  computes the output of an \<open>IsZero\<close> hint as \<open>1 - a\<^sup>p\<^sup>-\<^sup>1\<close> in the field, and the output
  of an \<open>IthBit\<close> hint as bit \<open>i\<close> of the (reduced) input.
\<close>

definition hintValue :: "HintFunction \<Rightarrow> int \<Rightarrow> int list \<Rightarrow> int" where
  "hintValue f q ins =
     (case f of
        HintIsZero \<Rightarrow> (1 - (hd ins mod q) ^ nat (q - 1)) mod q
      | HintIthBit \<Rightarrow> (if bit (hd ins mod q) (nat (hd (tl ins))) then 1 else 0))"


section \<open>The PLONK prover: blinding\<close>

text \<open>
  A \<^verbatim>\<open>polynomial.Polynomial\<close> is a slice of field elements: \<open>cells\<close> are the cells of
  the backing array from the start of the slice to its capacity, \<open>len\<close> is the length of
  the slice. Field elements are integers modulo the order \<open>q\<close> of the scalar field.
\<close>

record Polynomial =
  cells :: "int list"
  len :: nat

definition cap :: "Polynomial \<Rightarrow> nat" where
  "cap p = length (cells p)"

text \<open>The polynomial a slice denotes, and the value of a coefficient list at a point.\<close>

definition coefficients :: "Polynomial \<Rightarrow> int list" where
  "coefficients p = take (len p) (cells p)"

definition evalPoly :: "int \<Rightarrow> int list \<Rightarrow> int \<Rightarrow> int" where
  "evalPoly q p x = (\<Sum>i<length p. p ! i * x ^ i) mod q"

text \<open>Arithmetic on \<^verbatim>\<open>uint64\<close> wraps around.\<close>

definition u64 :: "nat \<Rightarrow> nat" where
  "u64 n = n mod 2 ^ 64"

datatype goPanic = SliceBoundsOutOfRange | IndexOutOfRangePanic

text \<open>
  The second loop of \<^verbatim>\<open>blindPoly\<close>, over \<open>i = 0, \<dots>, bo\<close>:
  \<^verbatim>\<open>res[i].Sub(&res[i], &blindingPoly[i]); res[rou+i].Add(&res[rou+i], &blindingPoly[i])\<close>.
\<close>

fun blindLoop :: "int \<Rightarrow> int list \<Rightarrow> nat \<Rightarrow> nat list \<Rightarrow> int list \<Rightarrow> goPanic + int list" where
  "blindLoop q blindingPoly rou [] res = Inr res"
| "blindLoop q blindingPoly rou (i # is) res =
     (if length res \<le> i \<or> length blindingPoly \<le> i then Inl IndexOutOfRangePanic
      else
        (let res1 = res[i := (res ! i - blindingPoly ! i) mod q];
             j = u64 (rou + i)
         in if length res1 \<le> j then Inl IndexOutOfRangePanic
            else blindLoop q blindingPoly rou is (res1[j := (res1 ! j + blindingPoly ! i) mod q])))"

text \<open>
  \<^verbatim>\<open>blindPoly(cp, rou, bo)\<close>. The result re-uses the memory of \<open>cp\<close>: it is the slice
  \<^verbatim>\<open>cp[:totalDegree+1]\<close>, which panics beyond the capacity. \<open>rnd i\<close> is the \<open>i\<close>-th value
  drawn by \<^verbatim>\<open>SetRandom\<close>, the only randomness of the prover.
\<close>

definition blindPoly :: "int \<Rightarrow> (nat \<Rightarrow> int) \<Rightarrow> Polynomial \<Rightarrow> nat \<Rightarrow> nat \<Rightarrow> goPanic + Polynomial" where
  "blindPoly q rnd cp rou bo =
     (let totalDegree = u64 (rou + bo);
          hi = u64 (totalDegree + 1)
      in if cap cp < hi then Inl SliceBoundsOutOfRange
         else
           (let res = take hi (cells cp);
                blindingPoly = map (\<lambda>i. rnd i mod q) [0..<u64 (bo + 1)]
            in (case blindLoop q blindingPoly rou [0..<u64 (bo + 1)] res of
                  Inl e \<Rightarrow> Inl e
                | Inr r \<Rightarrow> Inr \<lparr>cells = r @ drop hi (cells cp), len = hi\<rparr>)))"


section \<open>The PLONK prover: transcript and rounds\<close>

subsection \<open>The Fiat-Shamir transcript\<close>

type_synonym bytes = "nat list"

datatype HashFS = SHA256

datatype error =
    ErrChallengeNotFound
  | ErrChallengeAlreadyComputed
  | ErrPreviousChallengeNotComputed
  | External string

datatype fsCall = CallBind string bytes | CallComputeChallenge string

text \<open>
  Modelled from the spec: the transcript (\<^verbatim>\<open>fiatshamir.NewTranscript\<close>, \<^verbatim>\<open>Bind\<close>,
  \<^verbatim>\<open>ComputeChallenge\<close>) belongs to a library and is not in the sources. "SHA-256 based;
  challenge derivation labels are the literal strings"; "each bind absorbs the raw
  marshaled bytes of the commitment or value". A challenge is the hash of its label, of
  the previous challenge (but for the first label) and of the bytes bound to it, in the
  order of the binds; binding to a label that is unknown or already derived is an error,
  and so is deriving a challenge before the previous one. The hash function is a
  parameter. \<open>calls\<close> records the calls the transcript has received, oldest first.
\<close>

record Transcript =
  hashFS :: HashFS
  labels :: "string list"
  bindings :: "bytes list"
  challenges :: "bytes list"
  isComputed :: "bool list"
  calls :: "fsCall list"

definition NewTranscript :: "HashFS \<Rightarrow> string list \<Rightarrow> Transcript" where
  "NewTranscript h ls =
     \<lparr>hashFS = h, labels = ls, bindings = replicate (length ls) [],
      challenges = replicate (length ls) [], isComputed = replicate (length ls) False,
      calls = []\<rparr>"

fun challengeOrder :: "string list \<Rightarrow> string \<Rightarrow> nat option" where
  "challengeOrder [] l = None"
| "challengeOrder (x # xs) l =
     (case challengeOrder xs l of
        Some i \<Rightarrow> Some (Suc i)
      | None \<Rightarrow> if x = l then Some 0 else None)"

definition bytesOf :: "string \<Rightarrow> bytes" where
  "bytesOf s = map of_char s"

text \<open>The outcome of a step of the prover: a panic, an error that \<^verbatim>\<open>Prove\<close> returns, or a
  value. A step is a function of the transcript, which it returns updated.\<close>

datatype 'a outcome = Panic goPanic | Error error | Ok 'a

type_synonym 'a step = "Transcript \<Rightarrow> Transcript \<times> 'a outcome"

definition Bind :: "string \<Rightarrow> bytes \<Rightarrow> unit step" where
  "Bind challenge v fs =
     (let fs1 = fs\<lparr>calls := calls fs @ [CallBind challenge v]\<rparr> in
      case challengeOrder (labels fs1) challenge of
        None \<Rightarrow> (fs1, Error ErrChallengeNotFound)
      | Some n \<Rightarrow>
          if isComputed fs1 ! n then (fs1, Error ErrChallengeAlreadyComputed)
          else (fs1\<lparr>bindings := (bindings fs1)[n := bindings fs1 ! n @ v]\<rparr>, Ok ()))"

definition ComputeChallenge :: "(HashFS \<Rightarrow> bytes \<Rightarrow> bytes) \<Rightarrow> string \<Rightarrow> bytes step" where
  "ComputeChallenge hashFn challenge fs =
     (let fs1 = fs\<lparr>calls := calls fs @ [CallComputeChallenge challenge]\<rparr> in
      case challengeOrder (labels fs1) challenge of
        None \<Rightarrow> (fs1, Error ErrChallengeNotFound)
      | Some n \<Rightarrow>
          if isComputed fs1 ! n then (fs1, Ok (challenges fs1 ! n))
          else if n \<noteq> 0 \<and> \<not> isComputed fs1 ! (n - 1) then (fs1, Error ErrPreviousChallengeNotComputed)
          else
            (let res = hashFn (hashFS fs1)
                         (bytesOf challenge @ (if n \<noteq> 0 then challenges fs1 ! (n - 1) else [])
                            @ bindings fs1 ! n)
             in (fs1\<lparr>challenges := (challenges fs1)[n := res],
                       isComputed := (isComputed fs1)[n := True]\<rparr>, Ok res)))"

subsection \<open>Steps\<close>

definition andThenStep :: "'a step \<Rightarrow> ('a \<Rightarrow> 'b step) \<Rightarrow> 'b step" where
  "andThenStep m f fs =
     (case m fs of
        (fs1, Ok x) \<Rightarrow> f x fs1
      | (fs1, Panic p) \<Rightarrow> (fs1, Panic p)
      | (fs1, Error e) \<Rightarrow> (fs1, Error e))"

definition orError :: "error + 'a \<Rightarrow> 'a step" where
  "orError r fs = (case r of Inl e \<Rightarrow> (fs, Error e) | Inr x \<Rightarrow> (fs, Ok x))"

definition orPanic :: "goPanic + 'a \<Rightarrow> 'a step" where
  "orPanic r fs = (case r of Inl p \<Rightarrow> (fs, Panic p) | Inr x \<Rightarrow> (fs, Ok x))"

definition yield :: "'a \<Rightarrow> 'a step" where
  "yield x fs = (fs, Ok x)"

subsection \<open>Slices\<close>

text \<open>\<^verbatim>\<open>make(polynomial.Polynomial, n, c)\<close>, \<^verbatim>\<open>copy(dst, src)\<close>, and a library function that
  works in place on the \<open>len\<close> elements of a slice (it cannot reach the spare capacity).\<close>

definition makePoly :: "nat \<Rightarrow> nat \<Rightarrow> Polynomial" where
  "makePoly n c = \<lparr>cells = replicate c 0, len = n\<rparr>"

definition copyInto :: "Polynomial \<Rightarrow> int list \<Rightarrow> Polynomial" where
  "copyInto dst src =
     (let n = min (len dst) (length src) in dst\<lparr>cells := take n src @ drop n (cells dst)\<rparr>)"

definition inPlace :: "(int list \<Rightarrow> int list) \<Rightarrow> Polynomial \<Rightarrow> Polynomial" where
  "inPlace f p =
     p\<lparr>cells := take (len p) (f (coefficients p) @ replicate (len p) 0) @ drop (len p) (cells p)\<rparr>"

subsection \<open>The proof and the functions the prover calls\<close>

text \<open>\<open>'d\<close> is \<^verbatim>\<open>kzg.Digest\<close>, a point of the curve.\<close>

record 'd OpeningProof =
  OpeningH :: 'd
  ClaimedValue :: int

record 'd BatchOpeningProof =
  BatchH :: 'd
  ClaimedValues :: "int list"

record 'd Proof =
  LRO :: "'d list"
  Z :: 'd
  H :: "'d list"
  BatchedProof :: "'d BatchOpeningProof"
  ZShiftedOpening :: "'d OpeningProof"

text \<open>
  What \<^verbatim>\<open>Prove\<close> calls, with the constraint system \<^verbatim>\<open>spr\<close> and the proving key \<^verbatim>\<open>pk\<close>
  fixed. The library functions (\<^verbatim>\<open>Solve\<close>, the FFT, \<^verbatim>\<open>kzg\<close>, SHA-256, \<^verbatim>\<open>SetBytes\<close>) are
  not in the sources. The numeric functions of the prover file (\<^verbatim>\<open>computeLRO\<close>, the
  values \<^verbatim>\<open>computeZ\<close> stores, \<^verbatim>\<open>evalConstraints\<close>, \<^verbatim>\<open>evalConstraintOrdering\<close>,
  \<^verbatim>\<open>evalStartsAtOne\<close>, \<^verbatim>\<open>evaluateOddCosetsHDomain\<close>, \<^verbatim>\<open>computeH\<close>,
  \<^verbatim>\<open>computeLinearizedPolynomial\<close>, the folding of \<open>h\<close>) are parameters as well: the
  statements about \<^verbatim>\<open>Prove\<close> below hold whatever values they compute.
\<close>

record 'd Kernels =
  FieldOrder :: int
  Cardinality :: nat
  Generator :: int
  Solve :: "int list \<Rightarrow> error + int list"
  computeLRO :: "int list \<Rightarrow> int list \<times> int list \<times> int list"
  FFTInverse :: "int list \<Rightarrow> int list"
  BitReverse :: "int list \<Rightarrow> int list"
  Commit :: "int list \<Rightarrow> error + 'd"
  Marshal :: "'d \<Rightarrow> bytes"
  hashFn :: "HashFS \<Rightarrow> bytes \<Rightarrow> bytes"
  SetBytes :: "bytes \<Rightarrow> int"
  accumulator :: "int list \<Rightarrow> int list \<Rightarrow> int list \<Rightarrow> int \<Rightarrow> int list"
  completeQk :: "int list \<Rightarrow> int list"
  evaluateOddCosetsHDomain :: "int list \<Rightarrow> int list"
  evalConstraints :: "int list \<Rightarrow> int list \<Rightarrow> int list \<Rightarrow> int list \<Rightarrow> int list"
  evalConstraintOrdering :: "int list \<Rightarrow> int list \<Rightarrow> int list \<Rightarrow> int list \<Rightarrow> int \<Rightarrow> int list"
  evalStartsAtOne :: "int list \<Rightarrow> int list"
  computeH :: "int list \<Rightarrow> int list \<Rightarrow> int list \<Rightarrow> int \<Rightarrow> int list \<times> int list \<times> int list"
  Open :: "int list \<Rightarrow> int \<Rightarrow> error + 'd OpeningProof"
  computeLinearizedPolynomial ::
    "int \<Rightarrow> int \<Rightarrow> int \<Rightarrow> int \<Rightarrow> int \<Rightarrow> int \<Rightarrow> int \<Rightarrow> int list \<Rightarrow> int list"
  foldH :: "int list \<Rightarrow> int list \<Rightarrow> int list \<Rightarrow> 'd list \<Rightarrow> int \<Rightarrow> int list \<times> 'd"
  BatchOpenSinglePoint :: "int list list \<Rightarrow> 'd list \<Rightarrow> int \<Rightarrow> error + 'd BatchOpeningProof"
  CS1 :: "int list"
  CS2 :: "int list"
  VkS :: "'d list"

text \<open>\<^verbatim>\<open>computeZ\<close>: the accumulator is stored in \<^verbatim>\<open>make(polynomial.Polynomial, n, n+3)\<close>.\<close>

definition computeZ :: "'d Kernels \<Rightarrow> int list \<Rightarrow> int list \<Rightarrow> int list \<Rightarrow> int \<Rightarrow> Polynomial" where
  "computeZ K l r o' gamma =
     copyInto (makePoly (Cardinality K) (Cardinality K + 3)) (accumulator K l r o' gamma)"

text \<open>A polynomial in Lagrange form copied into a slice with spare capacity and put in
  canonical form: \<^verbatim>\<open>make\<close>, \<^verbatim>\<open>copy\<close>, \<^verbatim>\<open>FFTInverse\<close>, \<^verbatim>\<open>BitReverse\<close>.\<close>

definition toCanonical :: "'d Kernels \<Rightarrow> Polynomial \<Rightarrow> Polynomial" where
  "toCanonical K p = inPlace (BitReverse K) (inPlace (FFTInverse K) p)"

definition canonicalWire :: "'d Kernels \<Rightarrow> int list \<Rightarrow> Polynomial" where
  "canonicalWire K l =
     toCanonical K (copyInto (makePoly (Cardinality K) (Cardinality K + 2)) l)"

subsection \<open>\<^verbatim>\<open>Prove\<close>\<close>

text \<open>
  Round 1, from \<^verbatim>\<open>computeLRO\<close> to the challenge \<open>gamma\<close>. The three blindings run one after
  the other and draw the values \<open>rnd 0, \<dots>, rnd 5\<close>. The commitments to \<open>bcl\<close> and \<open>bcr\<close> are
  computed by goroutines; the function reads each result after its channel is closed,
  and looks at the error of \<open>LRO[2]\<close> first.
\<close>

record 'd round1 =
  wiresL :: "int list"
  wiresR :: "int list"
  wiresO :: "int list"
  bcl :: Polynomial
  bcr :: Polynomial
  bco :: Polynomial
  digestsLRO :: "'d list"
  gamma :: int

definition proveRound1 :: "'d Kernels \<Rightarrow> (nat \<Rightarrow> int) \<Rightarrow> int list \<Rightarrow> 'd round1 step" where
  "proveRound1 K rnd solution =
     (case computeLRO K solution of (ll, lr, lo) \<Rightarrow>
      (let N = Cardinality K;
           cl = canonicalWire K ll;
           cr = canonicalWire K lr;
           co = canonicalWire K lo
       in
       andThenStep (orPanic (blindPoly (FieldOrder K) rnd cl N 1)) (\<lambda>bcl.
       andThenStep (orPanic (blindPoly (FieldOrder K) (\<lambda>i. rnd (i + 2)) cr N 1)) (\<lambda>bcr.
       andThenStep (orPanic (blindPoly (FieldOrder K) (\<lambda>i. rnd (i + 4)) co N 1)) (\<lambda>bco.
       (let commit0 = Commit K (coefficients bcl);
            commit1 = Commit K (coefficients bcr)
        in
        andThenStep (orError (Commit K (coefficients bco))) (\<lambda>lro2.
        andThenStep (orError commit0) (\<lambda>lro0.
        andThenStep (Bind ''gamma'' (Marshal K lro0)) (\<lambda>_.
        andThenStep (orError commit1) (\<lambda>lro1.
        andThenStep (Bind ''gamma'' (Marshal K lro1)) (\<lambda>_.
        andThenStep (Bind ''gamma'' (Marshal K lro2)) (\<lambda>_.
        andThenStep (ComputeChallenge (hashFn K) ''gamma'') (\<lambda>bgamma.
          yield \<lparr>wiresL = ll, wiresR = lr, wiresO = lo, bcl = bcl, bcr = bcr, bco = bco,
                 digestsLRO = [lro0, lro1, lro2], gamma = SetBytes K bgamma\<rparr>)))))))))))))"

text \<open>
  Round 2, from \<^verbatim>\<open>computeZ\<close> to the challenge \<open>alpha\<close>. The blinding of \<open>z\<close> draws
  \<open>rnd 6, rnd 7, rnd 8\<close>.
\<close>

record 'd round2 =
  bz :: Polynomial
  digestZ :: 'd
  constraintsInd :: "int list"
  constraintsOrdering :: "int list"
  startsAtOne :: "int list"
  alpha :: int

definition proveRound2 :: "'d Kernels \<Rightarrow> (nat \<Rightarrow> int) \<Rightarrow> int list \<Rightarrow> 'd round1 \<Rightarrow> 'd round2 step" where
  "proveRound2 K rnd fullWitness r1 =
     (let N = Cardinality K;
          z = toCanonical K (computeZ K (wiresL r1) (wiresR r1) (wiresO r1) (gamma r1));
          qkFullC = completeQk K fullWitness;
          evalBlindedL = evaluateOddCosetsHDomain K (coefficients (bcl r1));
          evalBlindedR = evaluateOddCosetsHDomain K (coefficients (bcr r1));
          evalBlindedO = evaluateOddCosetsHDomain K (coefficients (bco r1));
          cInd = evalConstraints K evalBlindedL evalBlindedR evalBlindedO qkFullC
      in
      andThenStep (orPanic (blindPoly (FieldOrder K) (\<lambda>i. rnd (i + 6)) z N 2)) (\<lambda>bz.
      andThenStep (orError (Commit K (coefficients bz))) (\<lambda>dz.
      (let evalBlindedZ = evaluateOddCosetsHDomain K (coefficients bz);
           cOrd = evalConstraintOrdering K evalBlindedZ evalBlindedL evalBlindedR evalBlindedO (gamma r1);
           sao = evalStartsAtOne K evalBlindedZ
       in
       andThenStep (Bind ''alpha'' (Marshal K dz)) (\<lambda>_.
       andThenStep (ComputeChallenge (hashFn K) ''alpha'') (\<lambda>balpha.
         yield \<lparr>bz = bz, digestZ = dz, constraintsInd = cInd, constraintsOrdering = cOrd,
                startsAtOne = sao, alpha = SetBytes K balpha\<rparr>))))))"

text \<open>Round 3, from \<^verbatim>\<open>computeH\<close> to the challenge \<open>zeta\<close>; the commitments to \<open>h1\<close> and
  \<open>h2\<close> are computed by goroutines, as in round 1.\<close>

record 'd round3 =
  chunk1 :: "int list"
  chunk2 :: "int list"
  chunk3 :: "int list"
  digestsH :: "'d list"
  zeta :: int

definition proveRound3 :: "'d Kernels \<Rightarrow> 'd round2 \<Rightarrow> 'd round3 step" where
  "proveRound3 K r2 =
     (case computeH K (constraintsInd r2) (constraintsOrdering r2) (startsAtOne r2) (alpha r2) of
        (h1, h2, h3) \<Rightarrow>
      (let commit0 = Commit K h1;
           commit1 = Commit K h2
       in
       andThenStep (orError (Commit K h3)) (\<lambda>d2.
       andThenStep (orError commit0) (\<lambda>d0.
       andThenStep (Bind ''zeta'' (Marshal K d0)) (\<lambda>_.
       andThenStep (orError commit1) (\<lambda>d1.
       andThenStep (Bind ''zeta'' (Marshal K d1)) (\<lambda>_.
       andThenStep (Bind ''zeta'' (Marshal K d2)) (\<lambda>_.
       andThenStep (ComputeChallenge (hashFn K) ''zeta'') (\<lambda>bzeta.
         yield \<lparr>chunk1 = h1, chunk2 = h2, chunk3 = h3, digestsH = [d0, d1, d2],
                zeta = SetBytes K bzeta\<rparr>)))))))))"

text \<open>Rounds 4 and 5: the openings. The transcript is not used any more.\<close>

definition proveOpenings ::
  "'d Kernels \<Rightarrow> 'd round1 \<Rightarrow> 'd round2 \<Rightarrow> 'd round3 \<Rightarrow> 'd Proof step" where
  "proveOpenings K r1 r2 r3 =
     (let q = FieldOrder K;
          zetaShifted = (zeta r3 * Generator K) mod q
      in
      andThenStep (orError (Open K (coefficients (bz r2)) zetaShifted)) (\<lambda>zOpening.
      (let bzuzeta = ClaimedValue zOpening;
           blzeta = evalPoly q (coefficients (bcl r1)) (zeta r3);
           brzeta = evalPoly q (coefficients (bcr r1)) (zeta r3);
           bozeta = evalPoly q (coefficients (bco r1)) (zeta r3);
           linearizedPolynomial =
             computeLinearizedPolynomial K blzeta brzeta bozeta (alpha r2) (gamma r1) (zeta r3)
               bzuzeta (coefficients (bz r2))
       in
       (case foldH K (chunk1 r3) (chunk2 r3) (chunk3 r3) (digestsH r3) (zeta r3) of
          (foldedH, foldedHDigest) \<Rightarrow>
        andThenStep (orError (Commit K linearizedPolynomial)) (\<lambda>linearizedPolynomialDigest.
        andThenStep
          (orError
             (BatchOpenSinglePoint K
                [foldedH, linearizedPolynomial, coefficients (bcl r1), coefficients (bcr r1),
                 coefficients (bco r1), CS1 K, CS2 K]
                ([foldedHDigest, linearizedPolynomialDigest] @ digestsLRO r1 @ take 2 (VkS K))
                (zeta r3)))
          (\<lambda>batched.
            yield \<lparr>LRO = digestsLRO r1, Z = digestZ r2, H = digestsH r3,
                   BatchedProof = batched, ZShiftedOpening = zOpening\<rparr>))))))"

text \<open>\<^verbatim>\<open>Prove\<close>. The result comes with the transcript as the function leaves it.\<close>

definition Prove :: "'d Kernels \<Rightarrow> (nat \<Rightarrow> int) \<Rightarrow> int list \<Rightarrow> Transcript \<times> 'd Proof outcome" where
  "Prove K rnd fullWitness =
     andThenStep (orError (Solve K fullWitness)) (\<lambda>solution.
     andThenStep (proveRound1 K rnd solution) (\<lambda>r1.
     andThenStep (proveRound2 K rnd fullWitness r1) (\<lambda>r2.
     andThenStep (proveRound3 K r2) (\<lambda>r3.
       proveOpenings K r1 r2 r3))))
     (NewTranscript SHA256 [''gamma'', ''alpha'', ''zeta''])"

subsection \<open>The order of the calls to the transcript\<close>

text \<open>The shape of a call: its kind and its label, without the bytes.\<close>

fun callShape :: "fsCall \<Rightarrow> fsCall" where
  "callShape (CallBind l v) = CallBind l []"
| "callShape (CallComputeChallenge l) = CallComputeChallenge l"

definition canonicalOrder :: "fsCall list" where
  "canonicalOrder =
     [CallBind ''gamma'' [], CallBind ''gamma'' [], CallBind ''gamma'' [],
      CallComputeChallenge ''gamma'',
      CallBind ''alpha'' [], CallComputeChallenge ''alpha'',
      CallBind ''zeta'' [], CallBind ''zeta'' [], CallBind ''zeta'' [],
      CallComputeChallenge ''zeta'']"

text \<open>A step emits a shape when, from every transcript, the calls it makes are the first
  calls of the shape, all of them when it ends with a value, and it leaves the hash and
  the labels of the transcript alone.\<close>

definition emits :: "'a step \<Rightarrow> fsCall list \<Rightarrow> bool" where
  "emits m shape =
     (\<forall>fs fs' out. m fs = (fs', out) \<longrightarrow>
        hashFS fs' = hashFS fs \<and> labels fs' = labels fs \<and>
        (\<exists>new n. calls fs' = calls fs @ new \<and> map callShape new = take n shape
             \<and> ((\<exists>x. out = Ok x) \<longrightarrow> length shape \<le> n)))"

subsection \<open>A small instance\<close>

text \<open>The field of order 13, a domain of 4 points generated by 5 (of order 4 modulo 13),
  and stand-ins for the library: the commitment to a polynomial is its value at 2, the
  hash adds the bytes up.\<close>

definition exampleKernels :: "nat Kernels" where
  "exampleKernels =
     \<lparr>FieldOrder = 13, Cardinality = 4, Generator = 5,
      Solve = (\<lambda>w. if w = [] then Inl (External ''no witness'') else Inr w),
      computeLRO = (\<lambda>s. (s, rev s, map (\<lambda>x. (x * x) mod 13) s)),
      FFTInverse = (\<lambda>p. p), BitReverse = rev,
      Commit = (\<lambda>p. Inr (nat (evalPoly 13 p 2))),
      Marshal = (\<lambda>d. [d]),
      hashFn = (\<lambda>h bs. [sum_list bs mod 256]),
      SetBytes = (\<lambda>bs. int (sum_list bs) mod 13),
      accumulator = (\<lambda>l r o' g. map (\<lambda>x. (x + g) mod 13) l),
      completeQk = (\<lambda>w. w),
      evaluateOddCosetsHDomain = (\<lambda>p. p),
      evalConstraints = (\<lambda>l r o' qk. l),
      evalConstraintOrdering = (\<lambda>z l r o' g. z),
      evalStartsAtOne = (\<lambda>z. z),
      computeH = (\<lambda>ci co' so a. (ci, co', so)),
      Open = (\<lambda>p x. Inr \<lparr>OpeningH = 0, ClaimedValue = evalPoly 13 p x\<rparr>),
      computeLinearizedPolynomial = (\<lambda>l r o' a g z zu p. p),
      foldH = (\<lambda>a b c ds z. (a, 0)),
      BatchOpenSinglePoint =
        (\<lambda>ps ds x. Inr \<lparr>BatchH = 0, ClaimedValues = map (\<lambda>p. evalPoly 13 p x) ps\<rparr>),
      CS1 = [], CS2 = [], VkS = [0, 0]\<rparr>"

definition exampleRnd :: "nat \<Rightarrow> int" where
  "exampleRnd i = [3, 4, 1, 5, 9, 2, 6, 5, 3] ! i"

definition exampleWitness :: "int list" where
  "exampleWitness = [1, 2, 3, 4]"

text \<open>Two coefficient lists take the same value at every \<open>n\<close>-th root of unity of the
  field of order \<open>q\<close>.\<close>

definition agreeOnRoots :: "int \<Rightarrow> nat \<Rightarrow> int list \<Rightarrow> int list \<Rightarrow> bool" where
  "agreeOnRoots q n p p' = (\<forall>x. x ^ n mod q = 1 mod q \<longrightarrow> evalPoly q p x = evalPoly q p' x)"

section \<open>Basic properties of the builder\<close>

lemma andThen_Inl [simp]: "andThen (Inl e) f = Inl e"
  by (simp add: andThen_def)

lemma andThen_Inr [simp]: "andThen (Inr (x, s)) f = f x s"
  by (simp add: andThen_def)

lemma andThen_eq_Inr:
  "andThen m f = Inr r \<longleftrightarrow> (\<exists>x s. m = Inr (x, s) \<and> f x s = Inr r)"
  by (auto simp: andThen_def split: sum.splits)

lemma sameBuild_refl [simp]: "sameBuild cs cs"
  by (simp add: sameBuild_def)

lemma sameBuild_trans: "sameBuild a b \<Longrightarrow> sameBuild b c \<Longrightarrow> sameBuild a c"
  unfolding sameBuild_def
  by (metis (no_types, lifting) append.assoc length_append length_replicate replicate_add add_diff_cancel_left')

lemma sameBuild_alloc [simp]: "sameBuild cs (cs\<lparr>heap := heap cs @ [False]\<rparr>)"
  by (simp add: sameBuild_def)

lemma extends_refl [simp]: "extends cs cs"
  by (simp add: extends_def)

lemma extends_trans: "extends a b \<Longrightarrow> extends b c \<Longrightarrow> extends a c"
  unfolding extends_def
  by (metis (no_types, lifting) le_trans length_take min.absorb2 nat_le_linear take_all take_take)

lemma sameBuild_extends: "sameBuild cs cs' \<Longrightarrow> extends cs cs'"
  unfolding sameBuild_def extends_def
  by (metis le_add1 length_append order_refl take_all)

lemma satisfies_append [simp]:
  "satisfies q w (xs @ ys) \<longleftrightarrow> satisfies q w xs \<and> satisfies q w ys"
  by (simp add: satisfies_def)

lemma satisfies_Cons [simp]:
  "satisfies q w (c # cs) \<longleftrightarrow> satisfiesR1C q w c \<and> satisfies q w cs"
  by (simp add: satisfies_def)

lemma satisfies_Nil [simp]: "satisfies q w []"
  by (simp add: satisfies_def)

lemma satisfies_take: "satisfies q w cs \<Longrightarrow> satisfies q w (take n cs)"
  by (metis append_take_drop_id satisfies_append)

lemma extends_satisfies:
  "extends cs cs' \<Longrightarrow> satisfies q w (Constraints cs') \<Longrightarrow> satisfies q w (Constraints cs)"
  unfolding extends_def by (metis satisfies_take)

lemma one_eq: "one cs = (constVar 1 (length (heap cs)), cs\<lparr>heap := heap cs @ [False]\<rparr>)"
  by (simp add: one_def newBool_def constVar_def)

lemma constantV_IVar [simp]: "constantV (IVar v) cs = Inr (v, cs)"
  by (simp add: constantV_def AssertIsSet_def)

lemma constantV_IConst [simp]:
  "constantV (IConst n) cs = Inr (constVar n (length (heap cs)), cs\<lparr>heap := heap cs @ [False]\<rparr>)"
  by (simp add: constantV_def one_eq constVar_def setCoeff_def)

lemma constantV_INil [simp]: "constantV INil cs = Inl UnsupportedInput"
  by (simp add: constantV_def)

lemma constantV_Inr:
  "constantV i cs = Inr (v, cs') \<Longrightarrow> LinExp v = inputLinExp i \<and> sameBuild cs cs' \<and> i \<noteq> INil"
  by (cases i) (auto simp: inputLinExp_def constVar_def)

lemma constantV_ok: "i \<noteq> INil \<Longrightarrow> \<exists>v cs'. constantV i cs = Inr (v, cs')"
  by (cases i) auto

lemma newInternalVariable_eq:
  "newInternalVariable cs =
     (\<lparr>LinExp = [Pack (NbInternalVariables cs) 1 Internal], IsBoolean = length (heap cs)\<rparr>,
      cs\<lparr>heap := heap cs @ [False], NbInternalVariables := Suc (NbInternalVariables cs)\<rparr>)"
  by (simp add: newInternalVariable_def newBool_def)

lemma IsConstant_constVar [simp]: "IsConstant (constVar n p)"
  by (simp add: IsConstant_def constVar_def isOneWire_def)

lemma constantValue_constVar [simp]: "constantValue (constVar n p) = Inr n"
  by (simp add: constantValue_def constVar_def IsConstant_def isOneWire_def)

lemma LinExp_constVar [simp]: "LinExp (constVar n p) = [Pack 0 n Virtual]"
  by (simp add: constVar_def)

lemma IsBoolean_constVar [simp]: "IsBoolean (constVar n p) = p"
  by (simp add: constVar_def)

lemma toVariablesLoop_Inr:
  "toVariablesLoop ins r s cs = Inr ((vars, s'), cs') \<Longrightarrow>
     (\<exists>vs. vars = r @ vs \<and> map LinExp vs = map inputLinExp ins) \<and> sameBuild cs cs' \<and> INil \<notin> set ins"
proof (induction ins arbitrary: r s cs)
  case Nil
  then show ?case by simp
next
  case (Cons i ins)
  from Cons.prems obtain v cs1 where
    c: "constantV i cs = Inr (v, cs1)" and
    l: "toVariablesLoop ins (r @ [v]) (s + length (LinExp v)) cs1 = Inr ((vars, s'), cs')"
    by (auto simp: andThen_eq_Inr)
  from Cons.IH [OF l] obtain vs where
    vs: "vars = (r @ [v]) @ vs" "map LinExp vs = map inputLinExp ins" and
    sb: "sameBuild cs1 cs'" and nn: "INil \<notin> set ins"
    by blast
  from constantV_Inr [OF c] have "LinExp v = inputLinExp i" "sameBuild cs cs1" "i \<noteq> INil"
    by simp_all
  with vs sb nn show ?case
    by (auto intro: sameBuild_trans)
qed

lemma toVariables_Inr:
  "toVariables ins cs = Inr ((vars, s), cs') \<Longrightarrow>
     map LinExp vars = map inputLinExp ins \<and> sameBuild cs cs' \<and> INil \<notin> set ins"
  unfolding toVariables_def by (drule toVariablesLoop_Inr) auto

lemma toVariablesLoop_ok:
  "INil \<notin> set ins \<Longrightarrow> \<exists>vars s' cs'. toVariablesLoop ins r s cs = Inr ((vars, s'), cs')"
proof (induction ins arbitrary: r s cs)
  case Nil
  then show ?case by simp
next
  case (Cons i ins)
  then have "i \<noteq> INil" by auto
  then obtain v cs1 where "constantV i cs = Inr (v, cs1)"
    using constantV_ok by blast
  with Cons show ?case by simp
qed

lemma toVariables_ok:
  "INil \<notin> set ins \<Longrightarrow> \<exists>vars s' cs'. toVariables ins cs = Inr ((vars, s'), cs')"
  unfolding toVariables_def by (rule toVariablesLoop_ok)

lemma toVariables_IVar1 [simp]:
  "toVariables [IVar a] cs = Inr (([a], length (LinExp a)), cs)"
  by (simp add: toVariables_def)

lemma toVariables_IVar2 [simp]:
  "toVariables [IVar a, IVar b] cs = Inr (([a, b], length (LinExp a) + length (LinExp b)), cs)"
  by (simp add: toVariables_def)

lemma toVariables_IVar3 [simp]:
  "toVariables [IVar a, IVar b, IVar c] cs =
     Inr (([a, b, c], length (LinExp a) + length (LinExp b) + length (LinExp c)), cs)"
  by (simp add: toVariables_def)

subsection \<open>Evaluation\<close>

lemma evalLinExp_Nil [simp]: "evalLinExp q w [] = 0"
  by (simp add: evalLinExp_def)

lemma evalLinExp_mod [simp]: "evalLinExp q w le mod q = evalLinExp q w le"
  by (simp add: evalLinExp_def)

lemma evalLinExp_append:
  "evalLinExp q w (xs @ ys) = (evalLinExp q w xs + evalLinExp q w ys) mod q"
  by (simp add: evalLinExp_def mod_add_eq)

lemma evalLinExp_Cons:
  "evalLinExp q w (t # ts) = (evalTerm w t + evalLinExp q w ts) mod q"
  by (simp add: evalLinExp_def mod_add_right_eq)

lemma evalLinExp_concat:
  "evalLinExp q w (concat xss) = sum_list (map (evalLinExp q w) xss) mod q"
proof (induction xss)
  case Nil
  then show ?case by simp
next
  case (Cons xs xss)
  have "evalLinExp q w (concat (xs # xss)) = (evalLinExp q w xs + evalLinExp q w (concat xss)) mod q"
    by (simp add: evalLinExp_append)
  also have "\<dots> = (evalLinExp q w xs + sum_list (map (evalLinExp q w) xss) mod q) mod q"
    by (simp add: Cons.IH)
  also have "\<dots> = sum_list (map (evalLinExp q w) (xs # xss)) mod q"
    by (simp add: mod_add_right_eq)
  finally show ?case .
qed

lemma evalLinExp_negate:
  "evalLinExp q w (negateLinExp le) = (- evalLinExp q w le) mod q"
proof -
  have "sum_list (map (evalTerm w) (negateLinExp le)) = - sum_list (map (evalTerm w) le)"
    by (induction le) (simp_all add: negateLinExp_def evalTerm_def)
  then show ?thesis
    by (simp add: evalLinExp_def mod_minus_eq)
qed

lemma evalLinExp_const [simp]:
  "oneWire w \<Longrightarrow> evalLinExp q w [Pack 0 n Virtual] = n mod q"
  by (simp add: evalLinExp_def evalTerm_def oneWire_def)

lemma insertTerm_sum:
  "sum_list (map (evalTerm w) (insertTerm q t us)) mod q
     = (evalTerm w t + sum_list (map (evalTerm w) us)) mod q"
proof (induction us)
  case Nil
  then show ?case by simp
next
  case (Cons u us)
  show ?case
  proof (cases "sameWire t u")
    case True
    let ?x = "w (TermVisibility u) (VariableID u)"
    let ?S = "sum_list (map (evalTerm w) us)"
    have t: "evalTerm w t = CoeffValue t * ?x"
      using True by (simp add: evalTerm_def sameWire_def)
    have u: "evalTerm w u = CoeffValue u * ?x"
      by (simp add: evalTerm_def)
    have "sum_list (map (evalTerm w) (insertTerm q t (u # us)))
            = ((CoeffValue u + CoeffValue t) mod q) * ?x + ?S"
      using True by (simp add: evalTerm_def setCoeff_def)
    also have "\<dots> mod q = ((CoeffValue u + CoeffValue t) * ?x + ?S) mod q"
      by (metis mod_add_left_eq mod_mult_left_eq)
    also have "(CoeffValue u + CoeffValue t) * ?x + ?S = evalTerm w t + (evalTerm w u + ?S)"
      by (simp add: t u algebra_simps)
    finally show ?thesis by simp
  next
    case False
    show ?thesis
    proof (cases "wireBefore t u")
      case True
      with False show ?thesis by simp
    next
      case nb: False
      have "(evalTerm w u + sum_list (map (evalTerm w) (insertTerm q t us))) mod q
              = (evalTerm w u + (evalTerm w t + sum_list (map (evalTerm w) us))) mod q"
        by (metis Cons.IH mod_add_right_eq)
      with False nb show ?thesis
        by (simp add: algebra_simps)
    qed
  qed
qed

lemma foldr_insertTerm_sum:
  "sum_list (map (evalTerm w) (foldr (insertTerm q) le [])) mod q
     = sum_list (map (evalTerm w) le) mod q"
proof (induction le)
  case Nil
  then show ?case by simp
next
  case (Cons t le)
  have "sum_list (map (evalTerm w) (foldr (insertTerm q) (t # le) [])) mod q
          = (evalTerm w t + sum_list (map (evalTerm w) (foldr (insertTerm q) le []))) mod q"
    by (simp add: insertTerm_sum)
  also have "\<dots> = (evalTerm w t + sum_list (map (evalTerm w) le)) mod q"
    by (metis Cons.IH mod_add_right_eq)
  finally show ?case by simp
qed

lemma filter_zero_sum:
  "sum_list (map (evalTerm w) (filter (\<lambda>t. CoeffValue t \<noteq> 0) le)) = sum_list (map (evalTerm w) le)"
  by (induction le) (simp_all add: evalTerm_def)

lemma evalLinExp_reduceLinExp [simp]:
  "evalLinExp q w (reduceLinExp q le) = evalLinExp q w le"
  by (simp add: evalLinExp_def reduceLinExp_def filter_zero_sum foldr_insertTerm_sum)

lemma LinExp_reduce [simp]: "LinExp (reduce cs v) = reduceLinExp (Modulus cs) (LinExp v)"
  by (simp add: reduce_def)

lemma IsBoolean_reduce [simp]: "IsBoolean (reduce cs v) = IsBoolean v"
  by (simp add: reduce_def)

lemma evalInput_IVar [simp]: "evalInput q w (IVar v) = evalLinExp q w (LinExp v)"
  by (simp add: evalInput_def inputLinExp_def)

lemma evalInput_IConst [simp]: "oneWire w \<Longrightarrow> evalInput q w (IConst n) = n mod q"
  by (simp add: evalInput_def inputLinExp_def)

lemma evalInput_mod [simp]: "evalInput q w i mod q = evalInput q w i"
  by (simp add: evalInput_def)

subsection \<open>Prime moduli\<close>

lemma primeModulus_coprime:
  assumes p: "primeModulus q" and nd: "\<not> q dvd a"
  shows "coprime q a"
proof -
  from p have q1: "1 < q" and nodiv: "\<And>m. 2 \<le> m \<Longrightarrow> m < nat q \<Longrightarrow> \<not> m dvd nat q"
    by (auto simp: primeModulus_def)
  let ?d = "gcd q a"
  have d0: "0 \<le> ?d" by simp
  have dq: "?d dvd q" by simp
  have dpos: "0 < ?d" using q1 by (simp add: gcd_pos_int)
  define n where "n = nat ?d"
  have n1: "n dvd nat q"
    unfolding n_def using dq d0 q1 by (simp add: nat_dvd_iff)
  have n2: "n \<le> nat q"
    unfolding n_def
  proof (rule nat_mono)
    show "?d \<le> q" using zdvd_imp_le [OF dq] q1 by simp
  qed
  have n3: "n < 2 \<or> n = nat q"
    using nodiv [of n] n1 n2 by (meson le_neq_implies_less not_le)
  have n4: "n \<noteq> nat q"
  proof
    assume "n = nat q"
    then have "?d = q" unfolding n_def using q1 dpos by simp
    then have "q dvd a" by (metis gcd_dvd2)
    with nd show False by simp
  qed
  have n5: "0 < n" unfolding n_def using dpos by simp
  from n3 n4 n5 have "n = 1" by simp
  then have "?d = 1" unfolding n_def using dpos by simp
  then show ?thesis by (simp add: coprime_iff_gcd_eq_1)
qed

lemma primeModulus_mult_zero:
  assumes p: "primeModulus q" and z: "(a * b) mod q = 0"
  shows "a mod q = 0 \<or> b mod q = 0"
proof (cases "q dvd a")
  case True
  then show ?thesis by (simp add: mod_eq_0_iff_dvd)
next
  case False
  from primeModulus_coprime [OF p False] have "coprime q a" .
  moreover from z have "q dvd a * b" by (simp add: mod_eq_0_iff_dvd)
  ultimately have "q dvd b" by (simp add: coprime_dvd_mult_right_iff)
  then show ?thesis by (simp add: mod_eq_0_iff_dvd)
qed

lemma primeModulus_gt1: "primeModulus q \<Longrightarrow> 1 < q"
  by (simp add: primeModulus_def)

subsection \<open>Add, Sub, Mul\<close>

lemma plonkSplit_eq:
  "plonkSplit res cs =
     (if BackendID cs = PLONK \<and> length (LinExp res) \<noteq> 1 then
        Inr (\<lparr>LinExp = [Pack (NbInternalVariables cs) 1 Internal], IsBoolean = length (heap cs)\<rparr>,
             cs\<lparr>heap := heap cs @ [False, False],
                NbInternalVariables := Suc (NbInternalVariables cs),
                Constraints := Constraints cs @
                  [R1C [Pack 0 1 Virtual] (LinExp res) [Pack (NbInternalVariables cs) 1 Internal]]\<rparr>)
      else Inr (res, cs))"
  by (simp add: plonkSplit_def newInternalVariable_eq one_eq newR1C_def)

lemma plonkSplit_Inr:
  assumes "plonkSplit res cs = Inr (r, cs')"
  shows "extends cs cs'"
    and "oneWire w \<Longrightarrow> satisfies (Modulus cs) w (Constraints cs') \<Longrightarrow>
           evalLinExp (Modulus cs) w (LinExp r) = evalLinExp (Modulus cs) w (LinExp res)"
  using assms
  by (auto simp: plonkSplit_eq extends_def satisfiesR1C_def mod_simps split: if_splits)

lemma sum_list_evalInput:
  "map LinExp vars = map inputLinExp ins \<Longrightarrow>
     sum_list (map (evalLinExp q w) (map LinExp vars)) = sum_list (map (evalInput q w) ins)"
proof -
  assume a: "map LinExp vars = map inputLinExp ins"
  have b: "map (evalInput q w) ins = map (evalLinExp q w) (map inputLinExp ins)"
    by (simp add: evalInput_def)
  show ?thesis by (simp only: a b)
qed

lemma alloc_extends [simp]: "extends cs (cs\<lparr>heap := heap cs @ xs\<rparr>)"
  by (simp add: extends_def)

lemma Add_Inr:
  assumes "Add i1 i2 ins cs = Inr (res, cs')"
  shows "extends cs cs'"
    and "oneWire w \<Longrightarrow> satisfies (Modulus cs) w (Constraints cs') \<Longrightarrow>
           evalLinExp (Modulus cs) w (LinExp res)
             = sum_list (map (evalInput (Modulus cs) w) (i1 # i2 # ins)) mod Modulus cs"
proof -
  from assms obtain vars s cs1 where
    tv: "toVariables (i1 # i2 # ins) cs = Inr ((vars, s), cs1)" and
    ps: "plonkSplit (reduce (cs1\<lparr>heap := heap cs1 @ [False]\<rparr>)
                       \<lparr>LinExp = concat (map LinExp vars), IsBoolean = length (heap cs1)\<rparr>)
                    (cs1\<lparr>heap := heap cs1 @ [False]\<rparr>) = Inr (res, cs')"
    by (auto simp: Add_def andThen_eq_Inr newBool_def Let_def)
  from toVariables_Inr [OF tv] have
    le: "map LinExp vars = map inputLinExp (i1 # i2 # ins)" and sb: "sameBuild cs cs1"
    by simp_all
  from sb have e1: "extends cs cs1" by (rule sameBuild_extends)
  from sb have m1: "Modulus cs1 = Modulus cs" by (simp add: sameBuild_def)
  have e2: "extends cs1 (cs1\<lparr>heap := heap cs1 @ [False]\<rparr>)" by simp
  from plonkSplit_Inr(1) [OF ps] e1 e2 show "extends cs cs'"
    by (blast intro: extends_trans)
  assume w: "oneWire w" and sat: "satisfies (Modulus cs) w (Constraints cs')"
  from plonkSplit_Inr(2) [OF ps w] sat m1
  have "evalLinExp (Modulus cs) w (LinExp res)
          = evalLinExp (Modulus cs) w (concat (map LinExp vars))"
    by simp
  also have "\<dots> = sum_list (map (evalLinExp (Modulus cs) w) (map LinExp vars)) mod Modulus cs"
    by (simp add: evalLinExp_concat comp_def)
  also have "\<dots> = sum_list (map (evalInput (Modulus cs) w) (i1 # i2 # ins)) mod Modulus cs"
    using sum_list_evalInput [OF le] by simp
  finally show "evalLinExp (Modulus cs) w (LinExp res)
             = sum_list (map (evalInput (Modulus cs) w) (i1 # i2 # ins)) mod Modulus cs" .
qed

lemma sum_list_negate:
  "sum_list (map (evalLinExp q w) (map (\<lambda>v. negateLinExp (LinExp v)) vs)) mod q
     = (- sum_list (map (evalLinExp q w) (map LinExp vs))) mod q"
proof (induction vs)
  case Nil
  then show ?case by simp
next
  case (Cons v vs)
  have "sum_list (map (evalLinExp q w) (map (\<lambda>v. negateLinExp (LinExp v)) (v # vs))) mod q
      = ((- evalLinExp q w (LinExp v)) mod q
          + sum_list (map (evalLinExp q w) (map (\<lambda>v. negateLinExp (LinExp v)) vs)) mod q) mod q"
    by (simp add: evalLinExp_negate mod_simps)
  also have "\<dots> = ((- evalLinExp q w (LinExp v)) mod q
          + (- sum_list (map (evalLinExp q w) (map LinExp vs))) mod q) mod q"
    by (simp only: Cons.IH)
  also have "\<dots> = (- sum_list (map (evalLinExp q w) (map LinExp (v # vs)))) mod q"
    by (simp add: mod_simps)
  finally show ?case .
qed

lemma Sub_Inr:
  assumes "Sub i1 i2 ins cs = Inr (res, cs')"
  shows "extends cs cs'"
    and "oneWire w \<Longrightarrow> satisfies (Modulus cs) w (Constraints cs') \<Longrightarrow>
           evalLinExp (Modulus cs) w (LinExp res)
             = (evalInput (Modulus cs) w i1
                 - sum_list (map (evalInput (Modulus cs) w) (i2 # ins))) mod Modulus cs"
proof -
  let ?q = "Modulus cs"
  from assms obtain vars s cs1 where
    tv: "toVariables (i1 # i2 # ins) cs = Inr ((vars, s), cs1)" and
    ps: "plonkSplit (reduce (cs1\<lparr>heap := heap cs1 @ [False]\<rparr>)
                       \<lparr>LinExp = LinExp (vars ! 0) @ concat (map (\<lambda>v. negateLinExp (LinExp v)) (tl vars)),
                        IsBoolean = length (heap cs1)\<rparr>)
                    (cs1\<lparr>heap := heap cs1 @ [False]\<rparr>) = Inr (res, cs')"
    by (auto simp: Sub_def andThen_eq_Inr newBool_def Let_def)
  from toVariables_Inr [OF tv] have
    le: "map LinExp vars = map inputLinExp (i1 # i2 # ins)" and sb: "sameBuild cs cs1"
    by simp_all
  from le obtain v0 vs where vars: "vars = v0 # vs" and
    v0: "LinExp v0 = inputLinExp i1" and vs: "map LinExp vs = map inputLinExp (i2 # ins)"
    by (cases vars) auto
  from sb have e1: "extends cs cs1" by (rule sameBuild_extends)
  from sb have m1: "Modulus cs1 = Modulus cs" by (simp add: sameBuild_def)
  have e2: "extends cs1 (cs1\<lparr>heap := heap cs1 @ [False]\<rparr>)" by simp
  from plonkSplit_Inr(1) [OF ps] e1 e2 show "extends cs cs'"
    by (blast intro: extends_trans)
  assume w: "oneWire w" and sat: "satisfies ?q w (Constraints cs')"
  from plonkSplit_Inr(2) [OF ps w] sat m1
  have "evalLinExp ?q w (LinExp res)
          = evalLinExp ?q w (LinExp v0 @ concat (map (\<lambda>v. negateLinExp (LinExp v)) vs))"
    by (simp add: vars)
  also have "\<dots> = (evalLinExp ?q w (LinExp v0)
           + sum_list (map (evalLinExp ?q w) (map (\<lambda>v. negateLinExp (LinExp v)) vs)) mod ?q) mod ?q"
    by (simp add: evalLinExp_append evalLinExp_concat)
  also have "\<dots> = (evalLinExp ?q w (LinExp v0)
           + (- sum_list (map (evalLinExp ?q w) (map LinExp vs))) mod ?q) mod ?q"
    by (simp only: sum_list_negate)
  also have "\<dots> = (evalInput ?q w i1 - sum_list (map (evalInput ?q w) (i2 # ins))) mod ?q"
    using sum_list_evalInput [OF vs, of ?q w] v0
    by (simp add: evalInput_def mod_add_right_eq algebra_simps)
  finally show "evalLinExp ?q w (LinExp res)
             = (evalInput ?q w i1 - sum_list (map (evalInput ?q w) (i2 # ins))) mod ?q" .
qed

lemma mulCoeff_eq: "mulCoeff lambda c = c * lambda"
  by (simp add: mulCoeff_def)

lemma evalLinExp_scale:
  "evalLinExp q w (map (\<lambda>t. Pack (VariableID t) (mulCoeff l (CoeffValue t)) (TermVisibility t)) le)
     = (evalLinExp q w le * l) mod q"
proof -
  have "sum_list (map (evalTerm w) (map (\<lambda>t. Pack (VariableID t) (mulCoeff l (CoeffValue t)) (TermVisibility t)) le))
          = sum_list (map (evalTerm w) le) * l"
    by (induction le) (simp_all add: evalTerm_def mulCoeff_eq algebra_simps)
  then show ?thesis
    by (simp add: evalLinExp_def mod_mult_left_eq)
qed

lemma IsConstant_eval:
  "IsConstant v \<Longrightarrow> oneWire w \<Longrightarrow> constantValue v = Inr c \<Longrightarrow> evalLinExp q w (LinExp v) = c mod q"
  by (auto simp: IsConstant_def constantValue_def isOneWire_def evalLinExp_def evalTerm_def oneWire_def
      split: list.splits)

lemma IsConstant_value: "IsConstant v \<Longrightarrow> \<exists>c. constantValue v = Inr c"
  by (simp add: constantValue_def)

lemma mulConstant_Inr:
  assumes "mulConstant v1 c cs = Inr (res, cs')"
  shows "sameBuild cs cs'"
    and "oneWire w \<Longrightarrow> evalLinExp q w (LinExp res)
           = (evalLinExp q w (LinExp v1) * evalLinExp q w (LinExp c)) mod q"
proof -
  from assms obtain l where l: "constantValue c = Inr l" and
    r: "res = \<lparr>LinExp = map (\<lambda>t. Pack (VariableID t) (mulCoeff l (CoeffValue t)) (TermVisibility t)) (LinExp v1),
                IsBoolean = length (heap cs)\<rparr>" and
    c: "cs' = cs\<lparr>heap := heap cs @ [False]\<rparr>"
    by (auto simp: mulConstant_def newBool_def split: sum.splits)
  from c show "sameBuild cs cs'" by simp
  assume w: "oneWire w"
  from l have "IsConstant c" by (simp add: constantValue_def split: if_splits)
  from IsConstant_eval [OF this w l] have "evalLinExp q w (LinExp c) = l mod q" .
  then show "evalLinExp q w (LinExp res) = (evalLinExp q w (LinExp v1) * evalLinExp q w (LinExp c)) mod q"
    by (simp add: r evalLinExp_scale mod_mult_right_eq)
qed

lemma mul_Inr:
  assumes "mul v1 v2 cs = Inr (res, cs')"
  shows "extends cs cs'"
    and "oneWire w \<Longrightarrow> satisfies (Modulus cs) w (Constraints cs') \<Longrightarrow>
           evalLinExp (Modulus cs) w (LinExp res)
             = (evalLinExp (Modulus cs) w (LinExp v1) * evalLinExp (Modulus cs) w (LinExp v2)) mod Modulus cs"
proof -
  let ?q = "Modulus cs"
  consider (vv) "\<not> IsConstant v1" "\<not> IsConstant v2"
    | (cc) "IsConstant v1" "IsConstant v2"
    | (cv) "IsConstant v1" "\<not> IsConstant v2"
    | (vc) "\<not> IsConstant v1" "IsConstant v2"
    by blast
  then have "extends cs cs' \<and> (oneWire w \<longrightarrow> satisfies ?q w (Constraints cs') \<longrightarrow>
           evalLinExp ?q w (LinExp res)
             = (evalLinExp ?q w (LinExp v1) * evalLinExp ?q w (LinExp v2)) mod ?q)"
  proof cases
    case vv
    with assms show ?thesis
      by (auto simp: mul_def newInternalVariable_eq newR1C_def extends_def satisfiesR1C_def)
  next
    case cc
    from cc obtain b1 b2 where b: "constantValue v1 = Inr b1" "constantValue v2 = Inr b2"
      using IsConstant_value by blast
    with cc assms have r: "res = constVar ((b1 * b2) mod ?q) (length (heap cs))"
      and c: "cs' = cs\<lparr>heap := heap cs @ [False]\<rparr>"
      by (auto simp: mul_def)
    show ?thesis
      using IsConstant_eval [OF cc(1) _ b(1), of w ?q] IsConstant_eval [OF cc(2) _ b(2), of w ?q]
      by (auto simp: r c mod_mult_eq)
  next
    case cv
    with assms have m: "mulConstant v2 v1 cs = Inr (res, cs')"
      by (simp add: mul_def)
    from mulConstant_Inr [OF m] show ?thesis
      by (auto simp: sameBuild_extends mult.commute)
  next
    case vc
    with assms have m: "mulConstant v1 v2 cs = Inr (res, cs')"
      by (simp add: mul_def)
    from mulConstant_Inr [OF m] show ?thesis
      by (auto simp: sameBuild_extends)
  qed
  then show "extends cs cs'"
    and "oneWire w \<Longrightarrow> satisfies ?q w (Constraints cs') \<Longrightarrow>
           evalLinExp ?q w (LinExp res)
             = (evalLinExp ?q w (LinExp v1) * evalLinExp ?q w (LinExp v2)) mod ?q"
    by blast+
qed

lemma Mul2_Inr:
  assumes "Mul i1 i2 [] cs = Inr (res, cs')"
  shows "extends cs cs'"
    and "oneWire w \<Longrightarrow> satisfies (Modulus cs) w (Constraints cs') \<Longrightarrow>
           evalLinExp (Modulus cs) w (LinExp res)
             = (evalInput (Modulus cs) w i1 * evalInput (Modulus cs) w i2) mod Modulus cs"
proof -
  let ?q = "Modulus cs"
  from assms obtain vars s cs1 res0 cs2 where
    tv: "toVariables [i1, i2] cs = Inr ((vars, s), cs1)" and
    m0: "mul (vars ! 0) (vars ! 1) cs1 = Inr (res0, cs2)" and
    ml: "mulLoop res0 (drop 2 vars) cs2 = Inr (res, cs')"
    by (auto simp: Mul_def andThen_eq_Inr)
  from toVariables_Inr [OF tv] have
    le: "map LinExp vars = map inputLinExp [i1, i2]" and sb: "sameBuild cs cs1"
    by simp_all
  from le obtain v1 v2 where vars: "vars = [v1, v2]"
    and v: "LinExp v1 = inputLinExp i1" "LinExp v2 = inputLinExp i2"
    by (cases vars; cases "tl vars") auto
  from ml m0 have m: "mul (vars ! 0) (vars ! 1) cs1 = Inr (res, cs')"
    by (simp add: vars)
  from sb have m1: "Modulus cs1 = Modulus cs" by (simp add: sameBuild_def)
  from mul_Inr(1) [OF m] sb show "extends cs cs'"
    by (blast intro: extends_trans sameBuild_extends)
  assume "oneWire w" "satisfies ?q w (Constraints cs')"
  with mul_Inr(2) [OF m, of w] show "evalLinExp ?q w (LinExp res)
             = (evalInput ?q w i1 * evalInput ?q w i2) mod ?q"
    by (simp add: vars v m1 evalInput_def)
qed

subsection \<open>Hints, assertions and inverses\<close>

lemma NewHint_IVar:
  "NewHint f [IVar a] cs =
     Inr (\<lparr>LinExp = [Pack (NbInternalVariables cs) 1 Internal], IsBoolean = length (heap cs)\<rparr>,
          cs\<lparr>heap := heap cs @ [False],
             NbInternalVariables := Suc (NbInternalVariables cs),
             MHints := MHints cs @
               [\<lparr>HintID = f, HintWire = NbInternalVariables cs, HintInputs = [LinExp a]\<rparr>]\<rparr>)"
  by (simp add: NewHint_def newInternalVariable_eq)

lemma NewHint_IVar_IConst:
  "NewHint f [IVar a, IConst i] cs =
     Inr (\<lparr>LinExp = [Pack (NbInternalVariables cs) 1 Internal], IsBoolean = length (heap cs)\<rparr>,
          cs\<lparr>heap := heap cs @ [False, False],
             NbInternalVariables := Suc (NbInternalVariables cs),
             MHints := MHints cs @
               [\<lparr>HintID = f, HintWire = NbInternalVariables cs,
                 HintInputs = [LinExp a, [Pack 0 i Virtual]]\<rparr>]\<rparr>)"
  by (simp add: NewHint_def newInternalVariable_eq toVariables_def)

text \<open>The linear expression \<open>1 - v\<close> of the boolean constraint.\<close>

lemma AssertIsBoolean_var:
  assumes "\<not> IsConstant v" and "\<not> deref (heap cs) (IsBoolean v)"
  shows "AssertIsBoolean (IVar v) cs =
     Inr ((), cs\<lparr>heap := (heap cs)[IsBoolean v := True] @ [False, False],
                Constraints := Constraints cs @
                  [R1C (LinExp v)
                       (reduceLinExp (Modulus cs) (Pack 0 1 Virtual # negateLinExp (LinExp v)))
                       [Pack 0 0 Virtual]],
                MDebug := MDebug cs @
                  [(length (Constraints cs),
                    [DText ''assertIsBoolean'', DTerms (LinExp v), DText '' == (0|1)''])]\<rparr>)"
  using assms
  by (simp add: AssertIsBoolean_def one_eq addConstraint_def newR1C_def AddDebugInfo_def Let_def)

lemma AssertIsBoolean_marked:
  assumes "\<not> IsConstant v" and "deref (heap cs) (IsBoolean v)"
  shows "AssertIsBoolean (IVar v) cs = Inr ((), cs)"
  using assms by (simp add: AssertIsBoolean_def)

lemma AssertIsBoolean_const:
  assumes "IsConstant v" and "constantValue v = Inr c"
  shows "AssertIsBoolean (IVar v) cs = (if c = 0 \<or> c = 1 then Inr ((), cs) else Inl (AssertIsBooleanFailed c))"
  using assms by (simp add: AssertIsBoolean_def)

lemma AssertIsBoolean_Inr:
  assumes "AssertIsBoolean (IVar v) cs = Inr (u, cs')"
  shows "extends cs cs'"
proof (cases "IsConstant v")
  case True
  then obtain c where "constantValue v = Inr c" using IsConstant_value by blast
  with True assms show ?thesis
    by (simp add: AssertIsBoolean_const split: if_splits)
next
  case False
  with assms show ?thesis
    by (cases "deref (heap cs) (IsBoolean v)")
       (auto simp: AssertIsBoolean_var AssertIsBoolean_marked extends_def)
qed

lemma boolean_constraint:
  assumes p: "primeModulus q" and w: "oneWire w"
    and s: "satisfiesR1C q w (R1C le (reduceLinExp q (Pack 0 1 Virtual # negateLinExp le)) [Pack 0 0 Virtual])"
  shows "evalLinExp q w le = 0 \<or> evalLinExp q w le = 1"
proof -
  let ?x = "evalLinExp q w le"
  from p have q1: "1 < q" by (rule primeModulus_gt1)
  have x: "0 \<le> ?x" "?x < q" using q1 by (simp_all add: evalLinExp_def)
  have "evalLinExp q w (Pack 0 1 Virtual # negateLinExp le) = (1 - ?x) mod q"
    using w by (simp add: evalLinExp_Cons evalLinExp_negate evalTerm_def oneWire_def mod_simps)
  with s w have "(?x * ((1 - ?x) mod q)) mod q = 0"
    by (simp add: satisfiesR1C_def)
  then have "(?x * (1 - ?x)) mod q = 0"
    by (simp add: mod_simps)
  from primeModulus_mult_zero [OF p this] have "?x mod q = 0 \<or> (1 - ?x) mod q = 0" .
  then show ?thesis
  proof
    assume "?x mod q = 0"
    then show ?thesis by simp
  next
    assume "(1 - ?x) mod q = 0"
    then have "q dvd (1 - ?x)" by (simp add: mod_eq_0_iff_dvd)
    then have d: "q dvd (?x - 1)" by (metis dvd_minus_iff minus_diff_eq)
    show ?thesis
    proof (rule ccontr)
      assume "\<not> (?x = 0 \<or> ?x = 1)"
      with x have "0 < ?x - 1" "?x - 1 < q" by simp_all
      from zdvd_not_zless [OF this] d show False by simp
    qed
  qed
qed

lemma AssertIsBoolean_sound:
  assumes a: "AssertIsBoolean (IVar v) cs = Inr (u, cs')"
    and nc: "\<not> IsConstant v" and nm: "\<not> deref (heap cs) (IsBoolean v)"
    and p: "primeModulus (Modulus cs)" and w: "oneWire w"
    and s: "satisfies (Modulus cs) w (Constraints cs')"
  shows "evalLinExp (Modulus cs) w (LinExp v) = 0 \<or> evalLinExp (Modulus cs) w (LinExp v) = 1"
proof -
  from a nc nm s have
    "satisfiesR1C (Modulus cs) w
       (R1C (LinExp v) (reduceLinExp (Modulus cs) (Pack 0 1 Virtual # negateLinExp (LinExp v)))
            [Pack 0 0 Virtual])"
    by (auto simp: AssertIsBoolean_var)
  from boolean_constraint [OF p w this] show ?thesis .
qed

lemma Inverse_var:
  assumes "\<not> IsConstant v"
  shows "Inverse (IVar v) cs =
     Inr (\<lparr>LinExp = [Pack (NbInternalVariables cs) 1 Internal], IsBoolean = length (heap cs)\<rparr>,
          cs\<lparr>heap := heap cs @ [False, False],
             NbInternalVariables := Suc (NbInternalVariables cs),
             Constraints := Constraints cs @
               [R1C [Pack (NbInternalVariables cs) 1 Internal] (LinExp v) [Pack 0 1 Virtual]],
             MDebug := MDebug cs @
               [(length (Constraints cs),
                 [DText ''inverse'', DTerms (LinExp v), DText ''*'',
                  DTerms [Pack (NbInternalVariables cs) 1 Internal], DText '' == 1''])]\<rparr>)"
  using assms
  by (simp add: Inverse_def newInternalVariable_eq one_eq addConstraint_def newR1C_def AddDebugInfo_def)

lemma sameBuild_fields:
  assumes "sameBuild cs cs'"
  shows "Constraints cs' = Constraints cs" "NbInternalVariables cs' = NbInternalVariables cs"
    "MHints cs' = MHints cs" "MDebug cs' = MDebug cs" "BackendID cs' = BackendID cs"
    "Modulus cs' = Modulus cs"
  using assms by (simp_all add: sameBuild_def)


subsection \<open>Success of the operations\<close>

lemma Add_ok:
  assumes "INil \<notin> set (i1 # i2 # ins)"
  shows "\<exists>res cs'. Add i1 i2 ins cs = Inr (res, cs')"
proof -
  from toVariables_ok [OF assms] obtain vars s cs1 where
    "toVariables (i1 # i2 # ins) cs = Inr ((vars, s), cs1)" by blast
  then show ?thesis
    by (simp add: Add_def newBool_def plonkSplit_eq Let_def)
qed

lemma Sub_ok:
  assumes "INil \<notin> set (i1 # i2 # ins)"
  shows "\<exists>res cs'. Sub i1 i2 ins cs = Inr (res, cs')"
proof -
  from toVariables_ok [OF assms] obtain vars s cs1 where
    "toVariables (i1 # i2 # ins) cs = Inr ((vars, s), cs1)" by blast
  then show ?thesis
    by (simp add: Sub_def newBool_def plonkSplit_eq Let_def)
qed

lemma mulConstant_ok:
  "IsConstant c \<Longrightarrow> \<exists>res cs'. mulConstant v c cs = Inr (res, cs')"
  by (simp add: mulConstant_def constantValue_def newBool_def)

lemma mul_ok: "\<exists>res cs'. mul v1 v2 cs = Inr (res, cs')"
proof -
  consider (vv) "\<not> IsConstant v1" "\<not> IsConstant v2"
    | (cc) "IsConstant v1" "IsConstant v2"
    | (cv) "IsConstant v1" "\<not> IsConstant v2"
    | (vc) "\<not> IsConstant v1" "IsConstant v2"
    by blast
  then show ?thesis
  proof cases
    case vv
    then show ?thesis by (simp add: mul_def newInternalVariable_eq)
  next
    case cc
    then show ?thesis by (simp add: mul_def constantValue_def)
  next
    case cv
    then show ?thesis using mulConstant_ok [of v1 v2 cs] by (simp add: mul_def)
  next
    case vc
    then show ?thesis using mulConstant_ok [of v2 v1 cs] by (simp add: mul_def)
  qed
qed

lemma toVariables2_Inr:
  assumes "toVariables [i1, i2] cs = Inr ((vars, s), cs1)"
  shows "\<exists>v1 v2. vars = [v1, v2] \<and> LinExp v1 = inputLinExp i1 \<and> LinExp v2 = inputLinExp i2"
proof -
  from toVariables_Inr [OF assms] have "map LinExp vars = map inputLinExp [i1, i2]" by simp
  then show ?thesis by (cases vars; cases "tl vars") auto
qed

lemma toVariables3_Inr:
  assumes "toVariables [i1, i2, i3] cs = Inr ((vars, s), cs1)"
  shows "\<exists>v1 v2 v3. vars = [v1, v2, v3] \<and> LinExp v1 = inputLinExp i1
           \<and> LinExp v2 = inputLinExp i2 \<and> LinExp v3 = inputLinExp i3"
proof -
  from toVariables_Inr [OF assms] have "map LinExp vars = map inputLinExp [i1, i2, i3]" by simp
  then show ?thesis by (cases vars; cases "tl vars"; cases "tl (tl vars)") auto
qed

lemma Mul2_ok:
  assumes "i1 \<noteq> INil" "i2 \<noteq> INil"
  shows "\<exists>res cs'. Mul i1 i2 [] cs = Inr (res, cs')"
proof -
  from assms have "INil \<notin> set [i1, i2]" by auto
  from toVariables_ok [OF this] obtain vars s cs1 where
    tv: "toVariables [i1, i2] cs = Inr ((vars, s), cs1)" by blast
  from toVariables2_Inr [OF tv] obtain v1 v2 where "vars = [v1, v2]" by blast
  with tv mul_ok [of v1 v2 cs1] show ?thesis
    by (auto simp: Mul_def)
qed

lemma AssertIsBoolean_ok:
  assumes "\<not> IsConstant v \<or> constantValue v = Inr 0 \<or> constantValue v = Inr 1"
  shows "\<exists>cs'. AssertIsBoolean (IVar v) cs = Inr ((), cs')"
proof (cases "IsConstant v")
  case True
  with assms show ?thesis by (auto simp: AssertIsBoolean_const)
next
  case False
  then show ?thesis
    by (cases "deref (heap cs) (IsBoolean v)") (simp_all add: AssertIsBoolean_var AssertIsBoolean_marked)
qed

lemma extends_Modulus: "extends cs cs' \<Longrightarrow> Modulus cs' = Modulus cs"
  by (simp add: extends_def)

section \<open>Constant folding\<close>

lemma find_exists: "P x \<Longrightarrow> x \<in> set xs \<Longrightarrow> \<exists>y. find P xs = Some y"
  by (metis find_None_iff not_Some_eq)

lemma ModInverse_unit:
  assumes q: "1 < q" and cop: "coprime q c"
  shows "0 \<le> ModInverse c q \<and> ModInverse c q < q \<and> (c * ModInverse c q) mod q = 1"
proof -
  from bezout_int [of c q] obtain u v where uv: "u * c + v * q = gcd c q" by blast
  from cop have "gcd c q = 1" by (simp add: coprime_iff_gcd_eq_1 gcd.commute)
  with uv have "(u * c + v * q) mod q = 1 mod q" by simp
  then have "(c * u) mod q = 1 mod q" by (simp add: mult.commute)
  then have m: "(c * (u mod q)) mod q = 1 mod q" by (simp add: mod_mult_right_eq)
  let ?x = "u mod q"
  have x: "0 \<le> ?x" "?x < q" using q by simp_all
  have e: "int (nat ?x) = ?x" using x(1) by simp
  have "nat ?x < nat q" using x q by (simp add: nat_less_iff)
  then have "nat ?x \<in> set [0..<nat q]" by simp
  then have "int (nat ?x) \<in> set (map int [0..<nat q])" by (simp only: set_map) (rule imageI)
  then have xin: "?x \<in> set (map int [0..<nat q])" by (simp only: e)
  from find_exists [of "\<lambda>x. (c * x) mod q = 1 mod q" ?x, OF m xin] obtain y where
    f: "find (\<lambda>x. (c * x) mod q = 1 mod q) (map int [0..<nat q]) = Some y"
    by blast
  then obtain i where i: "i < length (map int [0..<nat q])"
    "(c * (map int [0..<nat q] ! i)) mod q = 1 mod q" "y = map int [0..<nat q] ! i"
    unfolding find_Some_iff by blast
  from i have yi: "y = int i" "i < nat q" by simp_all
  then have y0: "0 \<le> y" "y < q" by simp_all
  from i have y1: "(c * y) mod q = 1 mod q" by simp
  have "ModInverse c q = y" unfolding ModInverse_def by (simp only: f option.case)
  with y0 y1 q show ?thesis by simp
qed


lemma primeModulus_inverse:
  assumes p: "primeModulus q" and c: "c mod q \<noteq> 0"
  shows "0 \<le> ModInverse c q \<and> ModInverse c q < q \<and> (c * ModInverse c q) mod q = 1"
proof -
  from c have "\<not> q dvd c" by (simp add: mod_eq_0_iff_dvd)
  from primeModulus_coprime [OF p this] have "coprime q c" .
  with primeModulus_gt1 [OF p] show ?thesis by (rule ModInverse_unit)
qed

lemma inputConstant_toVariables1:
  assumes "inputConstant i = Some c"
  shows "\<exists>v s cs1. toVariables [i] cs = Inr (([v], s), cs1) \<and> IsConstant v
           \<and> constantValue v = Inr c \<and> sameBuild cs cs1"
proof (cases i)
  case (IVar v)
  with assms show ?thesis
    by (simp add: inputConstant_def constantValue_def split: if_splits)
next
  case (IConst n)
  with assms show ?thesis
    by (simp add: inputConstant_def toVariables_def)
next
  case INil
  with assms show ?thesis by (simp add: inputConstant_def)
qed

lemma Inverse_constant:
  assumes "inputConstant i = Some c"
  shows "c = 0 \<Longrightarrow> Inverse i cs = Inl InverseByConstantZero"
    and "c \<noteq> 0 \<Longrightarrow> \<exists>res cs'. Inverse i cs = Inr (res, cs')
           \<and> LinExp res = [Pack 0 (ModInverse c (Modulus cs)) Virtual] \<and> sameBuild cs cs'"
proof -
  from inputConstant_toVariables1 [OF assms, of cs] obtain v s cs1 where
    tv: "toVariables [i] cs = Inr (([v], s), cs1)" and v: "IsConstant v" "constantValue v = Inr c"
    and sb: "sameBuild cs cs1"
    by blast
  show "c = 0 \<Longrightarrow> Inverse i cs = Inl InverseByConstantZero"
    by (simp add: Inverse_def tv v)
  assume "c \<noteq> 0"
  then have "Inverse i cs = Inr (constVar (ModInverse c (Modulus cs1)) (length (heap cs1)),
                                 cs1\<lparr>heap := heap cs1 @ [False]\<rparr>)"
    by (simp add: Inverse_def tv v)
  moreover have "sameBuild cs (cs1\<lparr>heap := heap cs1 @ [False]\<rparr>)"
    using sb sameBuild_alloc by (rule sameBuild_trans)
  ultimately show "\<exists>res cs'. Inverse i cs = Inr (res, cs')
           \<and> LinExp res = [Pack 0 (ModInverse c (Modulus cs)) Virtual] \<and> sameBuild cs cs'"
    using sameBuild_fields(6) [OF sb] by simp
qed

lemma toVariables2_ok:
  assumes "a \<noteq> INil" and "inputConstant i = Some c"
  shows "\<exists>va v s cs1. toVariables [a, i] cs = Inr (([va, v], s), cs1) \<and> LinExp va = inputLinExp a
           \<and> IsConstant v \<and> constantValue v = Inr c \<and> sameBuild cs cs1"
proof -
  from assms(2) have "i \<noteq> INil" by (auto simp: inputConstant_def)
  with assms(1) have "INil \<notin> set [a, i]" by auto
  from toVariables_ok [OF this] obtain vars s cs1 where
    tv: "toVariables [a, i] cs = Inr ((vars, s), cs1)"
    by blast
  from toVariables_Inr [OF tv] have le: "map LinExp vars = map inputLinExp [a, i]"
    and sb: "sameBuild cs cs1" by simp_all
  from le obtain va v where vars: "vars = [va, v]" and l: "LinExp va = inputLinExp a"
    "LinExp v = inputLinExp i"
    by (cases vars; cases "tl vars") auto
  from assms(2) l(2) have "IsConstant v \<and> constantValue v = Inr c"
    by (cases i) (auto simp: inputConstant_def inputLinExp_def IsConstant_def constantValue_def
        isOneWire_def split: if_splits list.splits)
  with tv vars l sb show ?thesis by auto
qed

lemma Div_constant_zero:
  assumes "inputConstant i = Some 0"
  shows "\<exists>e. Div a i cs = Inl e" and "a \<noteq> INil \<Longrightarrow> Div a i cs = Inl DivByConstantZero"
proof -
  show d: "a \<noteq> INil \<Longrightarrow> Div a i cs = Inl DivByConstantZero"
  proof -
    assume "a \<noteq> INil"
    from toVariables2_ok [OF this assms, of cs] obtain va v s cs1 where
      "toVariables [a, i] cs = Inr (([va, v], s), cs1)" "IsConstant v" "constantValue v = Inr 0"
      by blast
    then show ?thesis by (simp add: Div_def divByConstant_def)
  qed
  show "\<exists>e. Div a i cs = Inl e"
  proof (cases "a = INil")
    case True
    then show ?thesis by (simp add: Div_def toVariables_def)
  next
    case False
    with d show ?thesis by simp
  qed
qed

lemma Div_constant_nonzero:
  assumes "inputConstant i = Some c" and "c \<noteq> 0" and "a \<noteq> INil"
  shows "\<exists>res cs'. Div a i cs = Inr (res, cs') \<and> sameBuild cs cs'
           \<and> (\<forall>n. inputConstant a = Some n \<longrightarrow>
                  LinExp res = [Pack 0 ((ModInverse c (Modulus cs) * n) mod Modulus cs) Virtual])"
proof -
  from toVariables2_ok [OF assms(3) assms(1), of cs] obtain va v s cs1 where
    tv: "toVariables [a, i] cs = Inr (([va, v], s), cs1)" and va: "LinExp va = inputLinExp a"
    and v: "IsConstant v" "constantValue v = Inr c" and sb: "sameBuild cs cs1"
    by blast
  note m = sameBuild_fields(6) [OF sb]
  have sb2: "sameBuild cs (cs1\<lparr>heap := heap cs1 @ [False]\<rparr>)"
    using sb sameBuild_alloc by (rule sameBuild_trans)
  show ?thesis
  proof (cases "IsConstant va")
    case True
    then obtain n where n: "constantValue va = Inr n" using IsConstant_value by blast
    have "inputConstant a = Some n"
      using True n va assms(3)
      by (cases a) (auto simp: inputConstant_def inputLinExp_def constantValue_def IsConstant_def
          split: list.splits)
    moreover have "Div a i cs = Inr (constVar ((ModInverse c (Modulus cs) * n) mod Modulus cs)
                                        (length (heap cs1)), cs1\<lparr>heap := heap cs1 @ [False]\<rparr>)"
      using True n v assms(2) by (simp add: Div_def tv divByConstant_def Let_def m)
    ultimately show ?thesis using sb2 by simp
  next
    case False
    have nc: "inputConstant a = None"
      using False va assms(3)
      by (cases a) (auto simp: inputConstant_def inputLinExp_def IsConstant_def isOneWire_def)
    obtain res cs' where d: "Div a i cs = Inr (res, cs')"
      and c': "cs' = cs1\<lparr>heap := heap cs1 @ [False, False]\<rparr>"
      using False v assms(2)
      by (simp add: Div_def tv divByConstant_def Let_def mulConstant_def newBool_def)
    have "sameBuild cs1 cs'" by (simp add: c' sameBuild_def numeral_2_eq_2)
    with sb have "sameBuild cs cs'" by (rule sameBuild_trans)
    with d nc show ?thesis by simp
  qed
qed


lemma constantBitsLoop_ok:
  "\<exists>bs cs'. constantBitsLoop c js b cs = Inr (b @ bs, cs')
      \<and> map LinExp bs = map (\<lambda>i. [Pack 0 (if bit c i then 1 else 0) Virtual]) js
      \<and> sameBuild cs cs'"
proof (induction js arbitrary: b cs)
  case Nil
  then show ?case by simp
next
  case (Cons j js)
  let ?v = "constVar (if bit c j then 1 else 0) (length (heap cs))"
  let ?cs = "cs\<lparr>heap := heap cs @ [False]\<rparr>"
  from Cons.IH [of "b @ [?v]" ?cs] obtain bs cs' where
    l: "constantBitsLoop c js (b @ [?v]) ?cs = Inr ((b @ [?v]) @ bs, cs')"
    and m: "map LinExp bs = map (\<lambda>i. [Pack 0 (if bit c i then 1 else 0) Virtual]) js"
    and sb: "sameBuild ?cs cs'"
    by blast
  have "constantBitsLoop c (j # js) b cs = Inr (b @ (?v # bs), cs')"
    using l by simp
  moreover have "map LinExp (?v # bs) = map (\<lambda>i. [Pack 0 (if bit c i then 1 else 0) Virtual]) (j # js)"
    using m by simp
  moreover have "sameBuild cs cs'"
    using sameBuild_alloc sb by (rule sameBuild_trans)
  ultimately show ?case by blast
qed


section \<open>Select\<close>

lemma inputConstant_iff:
  assumes "LinExp v = inputLinExp i" and "i \<noteq> INil"
  shows "inputConstant i = Some c \<longleftrightarrow> IsConstant v \<and> constantValue v = Inr c"
  using assms
  by (cases i)
     (auto simp: inputConstant_def inputLinExp_def IsConstant_def constantValue_def isOneWire_def
       split: list.splits if_splits)

lemma inputConstant_None_iff:
  assumes "LinExp v = inputLinExp i" and "i \<noteq> INil"
  shows "inputConstant i = None \<longleftrightarrow> \<not> IsConstant v"
  using assms
  by (cases i)
     (auto simp: inputConstant_def inputLinExp_def IsConstant_def isOneWire_def
       split: list.splits if_splits)

lemma evalInput_eq: "LinExp v = inputLinExp i \<Longrightarrow> evalInput q w (IVar v) = evalInput q w i"
  by (simp add: evalInput_def inputLinExp_def)

lemma mod_mult_add: "(x * (a mod q) + b) mod q = (x * a + b) mod (q::int)"
  by (metis mod_add_left_eq mod_mult_right_eq)

lemma Select_Inr:
  assumes sel: "Select s a b cs = Inr (res, cs')"
  shows "extends cs cs'"
    and "\<exists>vars n cs1 cs2. toVariables [s, a, b] cs = Inr ((vars, n), cs1)
           \<and> AssertIsBoolean (IVar (vars ! 0)) cs1 = Inr ((), cs2) \<and> extends cs2 cs'"
    and "oneWire w \<Longrightarrow> satisfies (Modulus cs) w (Constraints cs') \<Longrightarrow>
           evalLinExp (Modulus cs) w (LinExp res)
             = (evalInput (Modulus cs) w s * (evalInput (Modulus cs) w a - evalInput (Modulus cs) w b)
                 + evalInput (Modulus cs) w b) mod Modulus cs"
proof -
  let ?q = "Modulus cs"
  from sel obtain vars n cs1 u cs2 where
    tv: "toVariables [s, a, b] cs = Inr ((vars, n), cs1)" and
    ab: "AssertIsBoolean (IVar (vars ! 0)) cs1 = Inr (u, cs2)"
    by (auto simp: Select_def andThen_eq_Inr Let_def)
  from toVariables3_Inr [OF tv] obtain vs va vb where vars: "vars = [vs, va, vb]"
    and le: "LinExp vs = inputLinExp s" "LinExp va = inputLinExp a" "LinExp vb = inputLinExp b"
    by blast
  from toVariables_Inr [OF tv] have sb: "sameBuild cs cs1" by simp
  from ab vars have ab': "AssertIsBoolean (IVar vs) cs1 = Inr ((), cs2)" by simp
  have e01: "extends cs cs1" using sb by (rule sameBuild_extends)
  have e12: "extends cs1 cs2" using ab by (rule AssertIsBoolean_Inr)
  have e02: "extends cs cs2" using e01 e12 by (rule extends_trans)
  note ev = evalInput_eq [OF le(1)] evalInput_eq [OF le(2)] evalInput_eq [OF le(3)]
  note unf = Select_def tv vars ab' Let_def andThen_eq_Inr
  have "extends cs cs' \<and> extends cs2 cs' \<and> (oneWire w \<longrightarrow> satisfies ?q w (Constraints cs') \<longrightarrow>
           evalLinExp ?q w (LinExp res)
             = (evalInput ?q w s * (evalInput ?q w a - evalInput ?q w b) + evalInput ?q w b) mod ?q)"
  proof (cases "IsConstant va \<and> IsConstant vb")
    case True
    then obtain n1 n2 where nv: "constantValue va = Inr n1" "constantValue vb = Inr n2"
      using IsConstant_value by blast
    from sel True nv obtain r cs3 where
      m: "Mul (IVar vs) (IConst (n1 - n2)) [] cs2 = Inr (r, cs3)" and
      ad: "Add (IVar r) (IVar vb) [] cs3 = Inr (res, cs')"
      by (auto simp: unf)
    have e23: "extends cs2 cs3" using m by (rule Mul2_Inr(1))
    have e3: "extends cs3 cs'" using ad by (rule Add_Inr(1))
    have e03: "extends cs cs3" using e02 e23 by (rule extends_trans)
    have e0: "extends cs cs'" using e03 e3 by (rule extends_trans)
    have e2: "extends cs2 cs'" using e23 e3 by (rule extends_trans)
    have q2: "Modulus cs2 = ?q" and q3: "Modulus cs3 = ?q"
      using e02 e03 by (simp_all add: extends_Modulus)
    {
      assume w: "oneWire w" and sat: "satisfies ?q w (Constraints cs')"
      have sat3: "satisfies ?q w (Constraints cs3)" using e3 sat by (rule extends_satisfies)
      have a1: "evalLinExp ?q w (LinExp va) = n1 mod ?q" "evalLinExp ?q w (LinExp vb) = n2 mod ?q"
        using True nv w by (simp_all add: IsConstant_eval)
      have r: "evalLinExp ?q w (LinExp r) = (evalInput ?q w s * ((n1 - n2) mod ?q)) mod ?q"
        using Mul2_Inr(2) [OF m, of w] w sat3 ev by (simp add: q2)
      have "evalLinExp ?q w (LinExp res) = (evalLinExp ?q w (LinExp r) + n2 mod ?q) mod ?q"
        using Add_Inr(2) [OF ad, of w] w sat a1 by (simp add: q3)
      also have "\<dots> = (evalInput ?q w s * ((n1 mod ?q - n2 mod ?q) mod ?q) + n2 mod ?q) mod ?q"
        unfolding r by (simp add: mod_simps mod_mult_add)
      also have "\<dots> = (evalInput ?q w s * (n1 mod ?q - n2 mod ?q) + n2 mod ?q) mod ?q"
        by (rule mod_mult_add)
      finally have "evalLinExp ?q w (LinExp res)
             = (evalInput ?q w s * (evalInput ?q w a - evalInput ?q w b) + evalInput ?q w b) mod ?q"
        using a1 ev by simp
    }
    with e0 e2 show ?thesis by blast
  next
    case nb: False
    show ?thesis
    proof (cases "IsConstant va \<and> constantValue va = Inr 0")
      case True
      from nb True have ncb: "\<not> IsConstant vb" by simp
      from sel ncb True obtain v cs3 where
        sb1: "Sub (IConst 1) (IVar vs) [] cs2 = Inr (v, cs3)" and
        m: "Mul (IVar v) (IVar vb) [] cs3 = Inr (res, cs')"
        by (auto simp: unf)
      have e23: "extends cs2 cs3" using sb1 by (rule Sub_Inr(1))
      have e3: "extends cs3 cs'" using m by (rule Mul2_Inr(1))
      have e03: "extends cs cs3" using e02 e23 by (rule extends_trans)
      have e0: "extends cs cs'" using e03 e3 by (rule extends_trans)
      have e2: "extends cs2 cs'" using e23 e3 by (rule extends_trans)
      have q2: "Modulus cs2 = ?q" and q3: "Modulus cs3 = ?q"
        using e02 e03 by (simp_all add: extends_Modulus)
      {
        assume w: "oneWire w" and sat: "satisfies ?q w (Constraints cs')"
        have sat3: "satisfies ?q w (Constraints cs3)" using e3 sat by (rule extends_satisfies)
        have a1: "evalInput ?q w a = 0"
          using True w ev(2) IsConstant_eval [of va w 0 ?q] by simp
        have v: "evalLinExp ?q w (LinExp v) = (1 mod ?q - evalInput ?q w s) mod ?q"
          using Sub_Inr(2) [OF sb1, of w] w sat3 ev by (simp add: q2)
        have "evalLinExp ?q w (LinExp res) = (evalLinExp ?q w (LinExp v) * evalInput ?q w b) mod ?q"
          using Mul2_Inr(2) [OF m, of w] w sat ev by (simp add: q3)
        also have "\<dots> = (evalInput ?q w s * (0 - evalInput ?q w b) + evalInput ?q w b) mod ?q"
          unfolding v by (simp add: mod_simps algebra_simps)
        finally have "evalLinExp ?q w (LinExp res)
             = (evalInput ?q w s * (evalInput ?q w a - evalInput ?q w b) + evalInput ?q w b) mod ?q"
          using a1 by simp
      }
      with e0 e2 show ?thesis by blast
    next
      case False
      from sel nb False obtain v cs3 x cs4 where
        sb1: "Sub (IVar va) (IVar vb) [] cs2 = Inr (v, cs3)" and
        m: "Mul (IVar vs) (IVar v) [] cs3 = Inr (x, cs4)" and
        ad: "Add (IVar x) (IVar vb) [] cs4 = Inr (res, cs')"
        by (auto simp: unf)
      have e23: "extends cs2 cs3" using sb1 by (rule Sub_Inr(1))
      have e34: "extends cs3 cs4" using m by (rule Mul2_Inr(1))
      have e4: "extends cs4 cs'" using ad by (rule Add_Inr(1))
      have e03: "extends cs cs3" using e02 e23 by (rule extends_trans)
      have e04: "extends cs cs4" using e03 e34 by (rule extends_trans)
      have e0: "extends cs cs'" using e04 e4 by (rule extends_trans)
      have e24: "extends cs2 cs4" using e23 e34 by (rule extends_trans)
      have e2: "extends cs2 cs'" using e24 e4 by (rule extends_trans)
      have q2: "Modulus cs2 = ?q" and q3: "Modulus cs3 = ?q" and q4: "Modulus cs4 = ?q"
        using e02 e03 e04 by (simp_all add: extends_Modulus)
      {
        assume w: "oneWire w" and sat: "satisfies ?q w (Constraints cs')"
        have sat4: "satisfies ?q w (Constraints cs4)" using e4 sat by (rule extends_satisfies)
        have sat3: "satisfies ?q w (Constraints cs3)" using e34 sat4 by (rule extends_satisfies)
        have v: "evalLinExp ?q w (LinExp v) = (evalInput ?q w a - evalInput ?q w b) mod ?q"
          using Sub_Inr(2) [OF sb1, of w] w sat3 ev by (simp add: q2)
        have x: "evalLinExp ?q w (LinExp x) = (evalInput ?q w s * evalLinExp ?q w (LinExp v)) mod ?q"
          using Mul2_Inr(2) [OF m, of w] w sat4 ev by (simp add: q3)
        have "evalLinExp ?q w (LinExp res) = (evalLinExp ?q w (LinExp x) + evalInput ?q w b) mod ?q"
          using Add_Inr(2) [OF ad, of w] w sat ev by (simp add: q4)
        also have "\<dots> = (evalInput ?q w s * (evalInput ?q w a - evalInput ?q w b) + evalInput ?q w b) mod ?q"
          unfolding x v by (simp add: mod_simps)
        finally have "evalLinExp ?q w (LinExp res)
             = (evalInput ?q w s * (evalInput ?q w a - evalInput ?q w b) + evalInput ?q w b) mod ?q" .
      }
      with e0 e2 show ?thesis by blast
    qed
  qed
  then show "extends cs cs'"
    and "\<exists>vars n cs1 cs2. toVariables [s, a, b] cs = Inr ((vars, n), cs1)
           \<and> AssertIsBoolean (IVar (vars ! 0)) cs1 = Inr ((), cs2) \<and> extends cs2 cs'"
    and "oneWire w \<Longrightarrow> satisfies ?q w (Constraints cs') \<Longrightarrow>
           evalLinExp ?q w (LinExp res)
             = (evalInput ?q w s * (evalInput ?q w a - evalInput ?q w b) + evalInput ?q w b) mod ?q"
    using tv ab' vars by auto
qed

lemma sameBuild_deref:
  assumes "sameBuild cs cs'"
  shows "deref (heap cs') p = deref (heap cs) p"
proof -
  from assms obtain k where h: "heap cs' = heap cs @ replicate k False"
    unfolding sameBuild_def by blast
  show ?thesis
    unfolding h deref_def by (auto simp: nth_append)
qed

lemma extends_subset:
  assumes "extends cs cs'"
  shows "set (Constraints cs) \<subseteq> set (Constraints cs')"
proof -
  from assms have "take (length (Constraints cs)) (Constraints cs') = Constraints cs"
    by (simp add: extends_def)
  then show ?thesis by (metis set_take_subset)
qed

lemma toVariables_hd:
  assumes "toVariables (IVar v # ins) cs = Inr ((vars, n), cs')"
  shows "vars ! 0 = v"
proof -
  from assms have "toVariablesLoop ins [v] (length (LinExp v)) cs = Inr ((vars, n), cs')"
    by (simp add: toVariables_def)
  from toVariablesLoop_Inr [OF this] obtain vs where "vars = [v] @ vs" by blast
  then show ?thesis by simp
qed

lemma AssertIsBoolean_asserted:
  assumes "AssertIsBoolean (IVar v) cs = Inr (u, cs')" and "\<not> IsConstant v"
  shows "deref (heap cs) (IsBoolean v)
           \<or> booleanConstraint (Modulus cs) (LinExp v) \<in> set (Constraints cs')"
  using assms
  by (cases "deref (heap cs) (IsBoolean v)")
     (auto simp: AssertIsBoolean_var booleanConstraint_def)

lemma AssertIsBoolean_constant:
  assumes "AssertIsBoolean (IVar v) cs = Inr (u, cs')" and "IsConstant v"
  shows "constantValue v = Inr 0 \<or> constantValue v = Inr 1"
proof -
  from assms(2) obtain c where c: "constantValue v = Inr c" using IsConstant_value by blast
  with assms show ?thesis by (auto simp: AssertIsBoolean_const split: if_splits)
qed

lemma Select_asserts:
  assumes sel: "Select s a b cs = Inr (res, cs')"
  shows "assertedBoolean s cs cs'"
proof -
  from Select_Inr(2) [OF sel] obtain vars n cs1 cs2 where
    tv: "toVariables [s, a, b] cs = Inr ((vars, n), cs1)" and
    ab: "AssertIsBoolean (IVar (vars ! 0)) cs1 = Inr ((), cs2)" and
    e2: "extends cs2 cs'"
    by blast
  from toVariables3_Inr [OF tv] obtain vs va vb where vars: "vars = [vs, va, vb]"
    and le: "LinExp vs = inputLinExp s"
    by blast
  from toVariables_Inr [OF tv] have sb: "sameBuild cs cs1" and nn: "s \<noteq> INil" by auto
  from ab vars have ab': "AssertIsBoolean (IVar vs) cs1 = Inr ((), cs2)" by simp
  show ?thesis
  proof (cases "IsConstant vs")
    case True
    from AssertIsBoolean_constant [OF ab' True] True
      inputConstant_iff [OF le nn, of 0] inputConstant_iff [OF le nn, of 1]
    have "inputConstant s = Some 0 \<or> inputConstant s = Some 1" by blast
    then show ?thesis by (auto simp: assertedBoolean_def)
  next
    case False
    with inputConstant_None_iff [OF le nn] have ic: "inputConstant s = None" by simp
    with nn obtain sv where s: "s = IVar sv" by (cases s) (auto simp: inputConstant_def)
    from toVariables_hd [OF tv [unfolded s]] vars have vs: "vs = sv" by simp
    from AssertIsBoolean_asserted [OF ab' False]
    have "deref (heap cs1) (IsBoolean vs)
           \<or> booleanConstraint (Modulus cs1) (LinExp vs) \<in> set (Constraints cs2)" .
    with sameBuild_deref [OF sb] sameBuild_fields(6) [OF sb] extends_subset [OF e2]
    have "deref (heap cs) (IsBoolean sv)
           \<or> booleanConstraint (Modulus cs) (LinExp sv) \<in> set (Constraints cs')"
      unfolding vs by auto
    with ic s show ?thesis by (simp add: assertedBoolean_def)
  qed
qed

lemma Select_ok:
  assumes nn: "INil \<notin> set [s, a, b]"
    and sc: "inputConstant s = None \<or> inputConstant s = Some 0 \<or> inputConstant s = Some 1"
  shows "\<exists>res cs'. Select s a b cs = Inr (res, cs')"
proof -
  from toVariables_ok [OF nn] obtain vars n cs1 where
    tv: "toVariables [s, a, b] cs = Inr ((vars, n), cs1)" by blast
  from toVariables3_Inr [OF tv] obtain vs va vb where vars: "vars = [vs, va, vb]"
    and le: "LinExp vs = inputLinExp s"
    by blast
  from nn have sn: "s \<noteq> INil" by auto
  from sc inputConstant_iff [OF le sn] inputConstant_None_iff [OF le sn]
  have "\<not> IsConstant vs \<or> constantValue vs = Inr 0 \<or> constantValue vs = Inr 1" by auto
  from AssertIsBoolean_ok [OF this] obtain cs2 where
    ab: "AssertIsBoolean (IVar vs) cs1 = Inr ((), cs2)" by blast
  note unf = Select_def tv vars ab Let_def
  show ?thesis
  proof (cases "IsConstant va \<and> IsConstant vb")
    case True
    then obtain n1 n2 where nv: "constantValue va = Inr n1" "constantValue vb = Inr n2"
      using IsConstant_value by blast
    obtain r cs3 where m: "Mul (IVar vs) (IConst (n1 - n2)) [] cs2 = Inr (r, cs3)"
      using Mul2_ok [of "IVar vs" "IConst (n1 - n2)" cs2] by auto
    obtain r' cs4 where "Add (IVar r) (IVar vb) [] cs3 = Inr (r', cs4)"
      using Add_ok [of "IVar r" "IVar vb" "[]" cs3] by auto
    with True nv m show ?thesis by (auto simp: unf)
  next
    case nb: False
    show ?thesis
    proof (cases "IsConstant va \<and> constantValue va = Inr 0")
      case True
      from nb True have ncb: "\<not> IsConstant vb" by simp
      obtain v cs3 where sb1: "Sub (IConst 1) (IVar vs) [] cs2 = Inr (v, cs3)"
        using Sub_ok [of "IConst 1" "IVar vs" "[]" cs2] by auto
      obtain r' cs4 where "Mul (IVar v) (IVar vb) [] cs3 = Inr (r', cs4)"
        using Mul2_ok [of "IVar v" "IVar vb" cs3] by auto
      with True ncb sb1 show ?thesis by (auto simp: unf)
    next
      case False
      obtain v cs3 where sb1: "Sub (IVar va) (IVar vb) [] cs2 = Inr (v, cs3)"
        using Sub_ok [of "IVar va" "IVar vb" "[]" cs2] by auto
      obtain x cs4 where m: "Mul (IVar vs) (IVar v) [] cs3 = Inr (x, cs4)"
        using Mul2_ok [of "IVar vs" "IVar v" cs3] by auto
      obtain r' cs5 where "Add (IVar x) (IVar vb) [] cs4 = Inr (r', cs5)"
        using Add_ok [of "IVar x" "IVar vb" "[]" cs4] by auto
      with nb False sb1 m show ?thesis by (auto simp: unf)
    qed
  qed
qed

section \<open>IsZero\<close>

lemma sameWire_sym: "sameWire t u \<Longrightarrow> sameWire u t"
  by (simp add: sameWire_def)

lemma sameWire_trans: "sameWire t u \<Longrightarrow> sameWire u v \<Longrightarrow> sameWire t v"
  by (simp add: sameWire_def)

lemma sameWire_setCoeff [simp]: "sameWire u (setCoeff t c) = sameWire u t"
  by (simp add: sameWire_def setCoeff_def)

lemma insertTerm_mem:
  "\<forall>u \<in> set us. \<not> sameWire t u \<Longrightarrow> t \<in> set (insertTerm q t us)"
  by (induction us) auto

lemma insertTerm_wires:
  "u \<in> set (insertTerm q t us) \<Longrightarrow> sameWire u t \<or> (\<exists>u' \<in> set us. sameWire u u')"
proof (induction us)
  case Nil
  then show ?case by (simp add: sameWire_def)
next
  case (Cons x us)
  have r: "sameWire x x" by (simp add: sameWire_def)
  have ru: "sameWire u u" by (simp add: sameWire_def)
  show ?case
  proof (cases "sameWire t x")
    case True
    with Cons.prems have "u = setCoeff x ((CoeffValue x + CoeffValue t) mod q) \<or> u \<in> set us"
      by simp
    then show ?thesis
    proof
      assume "u = setCoeff x ((CoeffValue x + CoeffValue t) mod q)"
      then have "sameWire u x" by (simp add: sameWire_def setCoeff_def)
      then show ?thesis by auto
    next
      assume "u \<in> set us"
      with ru show ?thesis by auto
    qed
  next
    case False
    show ?thesis
    proof (cases "wireBefore t x")
      case True
      with False Cons.prems have "u = t \<or> u = x \<or> u \<in> set us" by simp
      with ru show ?thesis by auto
    next
      case nb: False
      with False Cons.prems have "u = x \<or> u \<in> set (insertTerm q t us)" by simp
      then show ?thesis
      proof
        assume "u = x"
        with ru show ?thesis by auto
      next
        assume "u \<in> set (insertTerm q t us)"
        from Cons.IH [OF this] show ?thesis by auto
      qed
    qed
  qed
qed

lemma foldr_insertTerm_wires:
  "u \<in> set (foldr (insertTerm q) le []) \<Longrightarrow> \<exists>u' \<in> set le. sameWire u u'"
proof (induction le arbitrary: u)
  case Nil
  then show ?case by simp
next
  case (Cons t le)
  from Cons.prems have "u \<in> set (insertTerm q t (foldr (insertTerm q) le []))" by simp
  from insertTerm_wires [OF this] show ?case
  proof
    assume "sameWire u t"
    then show ?thesis by auto
  next
    assume "\<exists>u' \<in> set (foldr (insertTerm q) le []). sameWire u u'"
    then obtain u' where u': "u' \<in> set (foldr (insertTerm q) le [])" "sameWire u u'" by blast
    from Cons.IH [OF u'(1)] obtain u'' where "u'' \<in> set le" "sameWire u' u''" by blast
    with u'(2) show ?thesis by (auto intro: sameWire_trans)
  qed
qed

lemma reduceLinExp_keeps:
  assumes nz: "CoeffValue t \<noteq> 0" and fresh: "\<forall>u \<in> set le. \<not> sameWire t u"
  shows "t \<in> set (reduceLinExp q (t # le))"
proof -
  have "\<forall>u \<in> set (foldr (insertTerm q) le []). \<not> sameWire t u"
  proof
    fix u assume "u \<in> set (foldr (insertTerm q) le [])"
    from foldr_insertTerm_wires [OF this] obtain u' where u': "u' \<in> set le" "sameWire u u'" by blast
    show "\<not> sameWire t u"
    proof
      assume "sameWire t u"
      from this u'(2) have "sameWire t u'" by (rule sameWire_trans)
      with fresh u'(1) show False by blast
    qed
  qed
  from insertTerm_mem [OF this] have "t \<in> set (foldr (insertTerm q) (t # le) [])" by simp
  with nz show ?thesis by (simp add: reduceLinExp_def)
qed

lemma internalBelow_fresh:
  assumes "internalBelow n le"
  shows "\<forall>u \<in> set le. \<not> sameWire (Pack n c Internal) u"
  using assms by (auto simp: internalBelow_def list_all_iff sameWire_def)

lemma not_IsConstant_internal:
  assumes "Pack n c Internal \<in> set (LinExp v)"
  shows "\<not> IsConstant v"
  using assms by (auto simp: IsConstant_def isOneWire_def split: list.splits)

lemma Add_result:
  assumes "Add i1 i2 ins cs = Inr (res, cs')"
  shows "LinExp res =
           (let red = reduceLinExp (Modulus cs) (concat (map inputLinExp (i1 # i2 # ins))) in
            if BackendID cs = PLONK \<and> length red \<noteq> 1 then [Pack (NbInternalVariables cs) 1 Internal]
            else red)"
    and "length (heap cs) \<le> IsBoolean res"
    and "MHints cs' = MHints cs"
proof -
  from assms obtain vars s cs1 where
    tv: "toVariables (i1 # i2 # ins) cs = Inr ((vars, s), cs1)" and
    ps: "plonkSplit (reduce (cs1\<lparr>heap := heap cs1 @ [False]\<rparr>)
                       \<lparr>LinExp = concat (map LinExp vars), IsBoolean = length (heap cs1)\<rparr>)
                    (cs1\<lparr>heap := heap cs1 @ [False]\<rparr>) = Inr (res, cs')"
    by (auto simp: Add_def andThen_eq_Inr newBool_def Let_def)
  from toVariables_Inr [OF tv] have
    le: "map LinExp vars = map inputLinExp (i1 # i2 # ins)" and sb: "sameBuild cs cs1"
    by simp_all
  note f = sameBuild_fields [OF sb]
  from sb have hl: "length (heap cs) \<le> length (heap cs1)"
    using sameBuild_extends extends_def by blast
  from ps show "LinExp res =
           (let red = reduceLinExp (Modulus cs) (concat (map inputLinExp (i1 # i2 # ins))) in
            if BackendID cs = PLONK \<and> length red \<noteq> 1 then [Pack (NbInternalVariables cs) 1 Internal]
            else red)"
    by (auto simp: plonkSplit_eq Let_def le f split: if_splits)
  from ps hl show "length (heap cs) \<le> IsBoolean res"
    by (auto simp: plonkSplit_eq split: if_splits)
  from ps show "MHints cs' = MHints cs"
    by (auto simp: plonkSplit_eq f split: if_splits)
qed

lemma IsZero_var_unfold:
  assumes nc: "\<not> IsConstant a"
  shows "IsZero (IVar a) cs =
     andThen
       (Add (IVar \<lparr>LinExp = [Pack (NbInternalVariables cs) 1 Internal], IsBoolean = length (heap cs)\<rparr>)
            (IVar a) []
            (cs\<lparr>NbInternalVariables := Suc (NbInternalVariables cs),
                MHints := MHints cs @
                  [\<lparr>HintID = HintIsZero, HintWire = NbInternalVariables cs, HintInputs = [LinExp a]\<rparr>],
                heap := heap cs @ [True, False, False, False],
                Constraints := Constraints cs @
                  [R1C (LinExp a) [Pack (NbInternalVariables cs) 1 Internal] [Pack 0 0 Virtual],
                   booleanConstraint (Modulus cs) [Pack (NbInternalVariables cs) 1 Internal]],
                MDebug := MDebug cs @
                  [(length (Constraints cs), [DText ''isZero'', DTerms (LinExp a)]),
                   (Suc (length (Constraints cs)),
                    [DText ''assertIsBoolean'', DTerms [Pack (NbInternalVariables cs) 1 Internal],
                     DText '' == (0|1)''])]\<rparr>))
       (\<lambda>ma cs5. andThen (Inverse (IVar ma) cs5)
          (\<lambda>_ cs6. Inr (\<lparr>LinExp = [Pack (NbInternalVariables cs) 1 Internal],
                          IsBoolean = length (heap cs)\<rparr>, cs6)))"
proof -
  let ?m = "\<lparr>LinExp = [Pack (NbInternalVariables cs) 1 Internal], IsBoolean = length (heap cs)\<rparr>"
  have m: "\<not> IsConstant ?m" by (simp add: IsConstant_def isOneWire_def)
  show ?thesis
    using nc
    by (simp add: IsZero_def NewHint_IVar Let_def AssertIsBoolean_var m deref_def nth_append
        addConstraint_def newR1C_def AddDebugInfo_def booleanConstraint_def list_update_append)
qed

lemma satisfies_mem: "satisfies q w cons \<Longrightarrow> c \<in> set cons \<Longrightarrow> satisfiesR1C q w c"
  by (simp add: satisfies_def list_all_iff)

lemma IsZero_sound:
  assumes p: "primeModulus q" and w: "oneWire w" and sat: "satisfies q w cons"
    and c1: "R1C a m [Pack 0 0 Virtual] \<in> set cons"
    and c2: "booleanConstraint q m \<in> set cons"
    and c3: "R1C iv ma [Pack 0 1 Virtual] \<in> set cons"
    and s: "evalLinExp q w ma = (evalLinExp q w m + evalLinExp q w a) mod q"
  shows "(evalLinExp q w m = 0 \<or> evalLinExp q w m = 1)
         \<and> (evalLinExp q w m = 1 \<longleftrightarrow> evalLinExp q w a = 0)"
proof -
  let ?M = "evalLinExp q w m" and ?A = "evalLinExp q w a" and ?I = "evalLinExp q w iv"
  from p have q1: "1 < q" by (rule primeModulus_gt1)
  from satisfies_mem [OF sat c2] have "?M = 0 \<or> ?M = 1"
    unfolding booleanConstraint_def by (rule boolean_constraint [OF p w])
  moreover
  from satisfies_mem [OF sat c1] w q1 have am: "(?A * ?M) mod q = 0"
    by (simp add: satisfiesR1C_def)
  from satisfies_mem [OF sat c3] w q1 have im: "(?I * ((?M + ?A) mod q)) mod q = 1"
    by (simp add: satisfiesR1C_def s)
  have "?M = 1 \<longleftrightarrow> ?A = 0"
  proof
    assume "?M = 1"
    with am have "?A mod q = 0" by simp
    then show "?A = 0" by simp
  next
    assume a0: "?A = 0"
    show "?M = 1"
    proof (rule ccontr)
      assume "?M \<noteq> 1"
      with \<open>?M = 0 \<or> ?M = 1\<close> have "?M = 0" by simp
      with a0 im show False by simp
    qed
  qed
  ultimately show ?thesis by blast
qed

lemma IsZero_var:
  assumes nc: "\<not> IsConstant a" and ib: "internalBelow (NbInternalVariables cs) (LinExp a)"
  shows "\<exists>m cs' iv ma. IsZero (IVar a) cs = Inr (m, cs')
      \<and> LinExp m = [Pack (NbInternalVariables cs) 1 Internal]
      \<and> MHints cs' = MHints cs @
           [\<lparr>HintID = HintIsZero, HintWire = NbInternalVariables cs, HintInputs = [LinExp a]\<rparr>]
      \<and> R1C (LinExp a) (LinExp m) [Pack 0 0 Virtual] \<in> set (Constraints cs')
      \<and> booleanConstraint (Modulus cs) (LinExp m) \<in> set (Constraints cs')
      \<and> R1C iv ma [Pack 0 1 Virtual] \<in> set (Constraints cs')
      \<and> (\<forall>w. oneWire w \<and> satisfies (Modulus cs) w (Constraints cs') \<longrightarrow>
             evalLinExp (Modulus cs) w ma
               = (evalLinExp (Modulus cs) w (LinExp m) + evalLinExp (Modulus cs) w (LinExp a))
                   mod Modulus cs)"
proof -
  let ?n = "NbInternalVariables cs"
  let ?q = "Modulus cs"
  let ?m = "\<lparr>LinExp = [Pack ?n 1 Internal], IsBoolean = length (heap cs)\<rparr>"
  let ?hint = "\<lparr>HintID = HintIsZero, HintWire = ?n, HintInputs = [LinExp a]\<rparr>"
  let ?cs4 = "cs\<lparr>NbInternalVariables := Suc ?n,
                MHints := MHints cs @ [?hint],
                heap := heap cs @ [True, False, False, False],
                Constraints := Constraints cs @
                  [R1C (LinExp a) [Pack ?n 1 Internal] [Pack 0 0 Virtual],
                   booleanConstraint ?q [Pack ?n 1 Internal]],
                MDebug := MDebug cs @
                  [(length (Constraints cs), [DText ''isZero'', DTerms (LinExp a)]),
                   (Suc (length (Constraints cs)),
                    [DText ''assertIsBoolean'', DTerms [Pack ?n 1 Internal],
                     DText '' == (0|1)''])]\<rparr>"
  obtain ma cs5 where ad: "Add (IVar ?m) (IVar a) [] ?cs4 = Inr (ma, cs5)"
    using Add_ok [of "IVar ?m" "IVar a" "[]" ?cs4] by auto
  have e45: "extends ?cs4 cs5" using ad by (rule Add_Inr(1))
  have q4: "Modulus ?cs4 = ?q" by simp
  have q5: "Modulus cs5 = ?q" using extends_Modulus [OF e45] by simp
  have h5: "MHints cs5 = MHints cs @ [?hint]" using Add_result(3) [OF ad] by simp
  \<comment> \<open>the sum is not a constant: it mentions the hint wire or is a fresh wire\<close>
  have ncm: "\<not> IsConstant ma"
  proof -
    let ?red = "reduceLinExp ?q (Pack ?n 1 Internal # LinExp a)"
    have k: "Pack ?n 1 Internal \<in> set ?red"
      using internalBelow_fresh [OF ib] by (intro reduceLinExp_keeps) simp_all
    have "LinExp ma = [Pack (Suc ?n) 1 Internal] \<or> LinExp ma = ?red"
      using Add_result(1) [OF ad] by (auto simp: Let_def inputLinExp_def split: if_splits)
    then show ?thesis
    proof
      assume "LinExp ma = [Pack (Suc ?n) 1 Internal]"
      then show ?thesis by (intro not_IsConstant_internal [of "Suc ?n" 1]) simp
    next
      assume "LinExp ma = ?red"
      with k show ?thesis by (intro not_IsConstant_internal [of ?n 1]) simp
    qed
  qed
  let ?iw = "[Pack (NbInternalVariables cs5) 1 Internal]"
  let ?cs6 = "cs5\<lparr>heap := heap cs5 @ [False, False],
             NbInternalVariables := Suc (NbInternalVariables cs5),
             Constraints := Constraints cs5 @ [R1C ?iw (LinExp ma) [Pack 0 1 Virtual]],
             MDebug := MDebug cs5 @
               [(length (Constraints cs5),
                 [DText ''inverse'', DTerms (LinExp ma), DText ''*'', DTerms ?iw, DText '' == 1''])]\<rparr>"
  have iz: "IsZero (IVar a) cs = Inr (?m, ?cs6)"
    by (simp add: IsZero_var_unfold [OF nc] ad Inverse_var [OF ncm])
  have sub: "set (Constraints ?cs4) \<subseteq> set (Constraints ?cs6)"
    using extends_subset [OF e45] by auto
  have c1: "R1C (LinExp a) (LinExp ?m) [Pack 0 0 Virtual] \<in> set (Constraints ?cs6)"
    using sub by auto
  have c2: "booleanConstraint ?q (LinExp ?m) \<in> set (Constraints ?cs6)"
    using sub by auto
  have c3: "R1C ?iw (LinExp ma) [Pack 0 1 Virtual] \<in> set (Constraints ?cs6)"
    by simp
  have sem: "\<forall>w. oneWire w \<and> satisfies ?q w (Constraints ?cs6) \<longrightarrow>
             evalLinExp ?q w (LinExp ma)
               = (evalLinExp ?q w (LinExp ?m) + evalLinExp ?q w (LinExp a)) mod ?q"
  proof (intro allI impI)
    fix w assume a: "oneWire w \<and> satisfies ?q w (Constraints ?cs6)"
    then have "satisfies ?q w (Constraints cs5)" by simp
    with Add_Inr(2) [OF ad, of w] a show "evalLinExp ?q w (LinExp ma)
               = (evalLinExp ?q w (LinExp ?m) + evalLinExp ?q w (LinExp a)) mod ?q"
      by simp
  qed
  have h6: "MHints ?cs6 = MHints cs @ [?hint]" using h5 by simp
  from iz c1 c2 c3 sem h6 show ?thesis
    by (intro exI [of _ ?m] exI [of _ ?cs6] exI [of _ ?iw] exI [of _ "LinExp ma"]) simp
qed

lemma IsZero_constant:
  assumes "inputConstant i = Some c"
  shows "\<exists>res cs'. IsZero i cs = Inr (res, cs')
           \<and> LinExp res = [Pack 0 (if c = 0 then 1 else 0) Virtual] \<and> sameBuild cs cs'"
proof -
  from inputConstant_toVariables1 [OF assms, of cs] obtain v s cs1 where
    tv: "toVariables [i] cs = Inr (([v], s), cs1)" and v: "IsConstant v" "constantValue v = Inr c"
    and sb: "sameBuild cs cs1"
    by blast
  have "sameBuild cs (cs1\<lparr>heap := heap cs1 @ [False]\<rparr>)"
    using sb sameBuild_alloc by (rule sameBuild_trans)
  then show ?thesis
    by (simp add: IsZero_def tv v)
qed

lemma DivUnchecked_constant_divisor:
  assumes "inputConstant i = Some c" and "a \<noteq> INil"
  shows "DivUnchecked a i cs = Div a i cs"
proof -
  from toVariables2_ok [OF assms(2) assms(1), of cs] obtain va v s cs1 where
    "toVariables [a, i] cs = Inr (([va, v], s), cs1)" "IsConstant v"
    by blast
  then show ?thesis by (simp add: DivUnchecked_def Div_def)
qed

lemma evalInput_constant:
  assumes "inputConstant i = Some c" and "oneWire w"
  shows "evalInput q w i = c mod q"
proof (cases i)
  case (IVar v)
  with assms(1) have c: "IsConstant v" "CoeffValue (hd (LinExp v)) = c"
    by (simp_all add: inputConstant_def split: if_splits)
  then obtain t where t: "LinExp v = [t]" "isOneWire t"
    by (auto simp: IsConstant_def split: list.splits)
  with c assms(2) IVar show ?thesis
    by (simp add: evalLinExp_def evalTerm_def isOneWire_def oneWire_def)
next
  case (IConst n)
  with assms show ?thesis by (simp add: inputConstant_def)
next
  case INil
  with assms show ?thesis by (simp add: inputConstant_def)
qed

lemma ModInverse_zero_divisor:
  assumes "c mod q = 0" and "1 < q"
  shows "ModInverse c q = c"
proof -
  have "(c * x) mod q \<noteq> 1 mod q" for x
  proof -
    have "(c * x) mod q = ((c mod q) * x) mod q" by (simp add: mod_mult_left_eq)
    with assms show ?thesis by simp
  qed
  then have "find (\<lambda>x. (c * x) mod q = 1 mod q) (map int [0..<nat q]) = None"
    by (simp add: find_None_iff)
  then show ?thesis by (simp add: ModInverse_def)
qed

section \<open>DivUnchecked\<close>

lemma toVariables_Input_IVar:
  assumes "a \<noteq> INil"
  shows "\<exists>va cs1. toVariables [a, IVar b] cs = Inr (([va, b], length (LinExp va) + length (LinExp b)), cs1)
           \<and> LinExp va = inputLinExp a \<and> sameBuild cs cs1"
  using assms by (cases a) (auto simp: toVariables_def inputLinExp_def)

text \<open>
  Claim C2. For every input \<open>a\<close> and every divisor \<open>b\<close> that is not a constant,
  \<open>DivUnchecked a b\<close> succeeds: it allocates one fresh internal wire \<open>q\<close>, returns it, and
  appends the single constraint \<open>b \<cdot> q = a\<close>; it records no hint. Such a divisor is not
  rejected when its value is zero: the build does not look at the value, and the emitted
  constraint holds under every assignment that gives both \<open>b\<close> and \<open>a\<close> the value zero.
  A divisor that is a constant is looked at: the constant 0 is rejected with the panic
  "div by constant(0)", so the build does fail on account of a zero divisor there, and
  every other constant is folded without a constraint, a wire or a hint.
\<close>

theorem DivUnchecked_single_constraint:
  assumes "a \<noteq> INil"
  shows "(\<not> IsConstant b \<longrightarrow>
           (\<exists>res cs'. DivUnchecked a (IVar b) cs = Inr (res, cs')
             \<and> LinExp res = [Pack (NbInternalVariables cs) 1 Internal]
             \<and> NbInternalVariables cs' = Suc (NbInternalVariables cs)
             \<and> Constraints cs' = Constraints cs @ [R1C (LinExp b) (LinExp res) (inputLinExp a)]
             \<and> MHints cs' = MHints cs
             \<and> (\<forall>q w. evalLinExp q w (LinExp b) = 0 \<and> evalInput q w a = 0
                    \<longrightarrow> satisfies q w [R1C (LinExp b) (LinExp res) (inputLinExp a)])))
       \<and> (inputConstant i = Some 0 \<longrightarrow> DivUnchecked a i cs = Inl DivByConstantZero)
       \<and> (inputConstant i = Some c \<and> c \<noteq> 0 \<longrightarrow>
           (\<exists>res cs'. DivUnchecked a i cs = Inr (res, cs') \<and> sameBuild cs cs'))"
proof (intro conjI impI)
  assume nc: "\<not> IsConstant b"
  from toVariables_Input_IVar [OF assms] obtain va cs1 where
    tv: "toVariables [a, IVar b] cs = Inr (([va, b], length (LinExp va) + length (LinExp b)), cs1)"
    and va: "LinExp va = inputLinExp a" and sb: "sameBuild cs cs1"
    by blast
  from sb have f: "Constraints cs1 = Constraints cs" "NbInternalVariables cs1 = NbInternalVariables cs"
    "MHints cs1 = MHints cs"
    by (simp_all add: sameBuild_def)
  show "\<exists>res cs'. DivUnchecked a (IVar b) cs = Inr (res, cs')
             \<and> LinExp res = [Pack (NbInternalVariables cs) 1 Internal]
             \<and> NbInternalVariables cs' = Suc (NbInternalVariables cs)
             \<and> Constraints cs' = Constraints cs @ [R1C (LinExp b) (LinExp res) (inputLinExp a)]
             \<and> MHints cs' = MHints cs
             \<and> (\<forall>q w. evalLinExp q w (LinExp b) = 0 \<and> evalInput q w a = 0
                    \<longrightarrow> satisfies q w [R1C (LinExp b) (LinExp res) (inputLinExp a)])"
    using nc va f
    by (simp add: DivUnchecked_def tv newInternalVariable_eq addConstraint_def newR1C_def
        satisfiesR1C_def evalInput_def)
next
  assume z: "inputConstant i = Some 0"
  from Div_constant_zero(2) [OF z assms, of cs] DivUnchecked_constant_divisor [OF z assms, of cs]
  show "DivUnchecked a i cs = Inl DivByConstantZero" by simp
next
  assume "inputConstant i = Some c \<and> c \<noteq> 0"
  then have c: "inputConstant i = Some c" "c \<noteq> 0" by simp_all
  from Div_constant_nonzero [OF c assms, of cs] DivUnchecked_constant_divisor [OF c(1) assms, of cs]
  show "\<exists>res cs'. DivUnchecked a i cs = Inr (res, cs') \<and> sameBuild cs cs'" by auto
qed

theorem DivUnchecked_single_constraint_witness:
  "IVar exampleY \<noteq> INil \<and> \<not> IsConstant exampleX
   \<and> (\<exists>res cs'. DivUnchecked (IVar exampleY) (IVar exampleX) (exampleBuilder GROTH16) = Inr (res, cs')
         \<and> Constraints cs' = [R1C [Pack 0 1 Secret] [Pack 0 1 Internal] [Pack 1 1 Secret]]
         \<and> evalLinExp 13 (exampleAssignment [0, 0] [5]) (LinExp exampleX) = 0
         \<and> evalInput 13 (exampleAssignment [0, 0] [5]) (IVar exampleY) = 0
         \<and> satisfies 13 (exampleAssignment [0, 0] [5]) (Constraints cs'))
   \<and> inputConstant (IConst 0) = Some 0
   \<and> DivUnchecked (IVar exampleY) (IConst 0) (exampleBuilder GROTH16) = Inl DivByConstantZero
   \<and> inputConstant (IConst 5) = Some 5 \<and> (5::int) \<noteq> 0
   \<and> (\<exists>res cs'. DivUnchecked (IVar exampleY) (IConst 5) (exampleBuilder GROTH16) = Inr (res, cs')
         \<and> Constraints cs' = [])"
proof -
  have h1: "\<not> IsConstant exampleX"
    by (simp add: IsConstant_def exampleX_def isOneWire_def)
  have h2: "IVar exampleY \<noteq> INil" by simp
  have h0: "inputConstant (IConst 0) = Some 0" and h5: "inputConstant (IConst 5) = Some 5"
    by (simp_all add: inputConstant_def)
  have e1: "evalLinExp 13 (exampleAssignment [0, 0] [5]) (LinExp exampleX) = 0"
    by (simp add: evalLinExp_def evalTerm_def exampleAssignment_def exampleX_def)
  have e2: "evalInput 13 (exampleAssignment [0, 0] [5]) (IVar exampleY) = 0"
    by (simp add: evalLinExp_def evalTerm_def exampleAssignment_def exampleY_def)
  note t0 = DivUnchecked_single_constraint [OF h2, of exampleX "exampleBuilder GROTH16" "IConst 0" 0]
  note t5 = DivUnchecked_single_constraint [OF h2, of exampleX "exampleBuilder GROTH16" "IConst 5" 5]
  from t0 h1 e1 e2
  have a: "\<exists>res cs'. DivUnchecked (IVar exampleY) (IVar exampleX) (exampleBuilder GROTH16) = Inr (res, cs')
         \<and> Constraints cs' = [R1C [Pack 0 1 Secret] [Pack 0 1 Internal] [Pack 1 1 Secret]]
         \<and> evalLinExp 13 (exampleAssignment [0, 0] [5]) (LinExp exampleX) = 0
         \<and> evalInput 13 (exampleAssignment [0, 0] [5]) (IVar exampleY) = 0
         \<and> satisfies 13 (exampleAssignment [0, 0] [5]) (Constraints cs')"
    by (auto simp: exampleBuilder_def exampleX_def exampleY_def inputLinExp_def)
  from t0 h0
  have b: "DivUnchecked (IVar exampleY) (IConst 0) (exampleBuilder GROTH16) = Inl DivByConstantZero"
    by simp
  from t5 h5
  have c: "\<exists>res cs'. DivUnchecked (IVar exampleY) (IConst 5) (exampleBuilder GROTH16) = Inr (res, cs')
         \<and> Constraints cs' = []"
    by (auto simp: sameBuild_def exampleBuilder_def)
  from h1 h2 h0 h5 a b c show ?thesis by simp
qed

text \<open>The claim as it was worded, "never fails at build time on account of the divisor
  being zero", fails on the constant divisor 0.\<close>

theorem DivUnchecked_constant_zero_counterexample:
  "DivUnchecked (IVar exampleY) (IConst 0) (exampleBuilder GROTH16) = Inl DivByConstantZero"
  by (simp add: DivUnchecked_def toVariables_def divByConstant_def constantValue_def
      IsConstant_def isOneWire_def exampleY_def exampleBuilder_def one_eq)

section \<open>Add\<close>

text \<open>
  Claim C7. For every list of operands (none of them the nil interface), \<open>Add\<close> succeeds.
  Let \<open>red\<close> be the reduction of the concatenation of the operands' linear expressions.
  With the PLONK backend and \<open>red\<close> not a single term (in particular with more than one
  term), \<open>Add\<close> allocates one fresh internal wire, returns it, and appends exactly one
  constraint, \<open>1 \<cdot> red = wire\<close>. Otherwise (another backend, or \<open>red\<close> of exactly one term)
  the returned variable has the linear expression \<open>red\<close>, and no wire and no constraint
  is added.
\<close>

theorem Add_reduces_and_binds:
  assumes "INil \<notin> set (i1 # i2 # ins)"
  shows "\<exists>res cs'. Add i1 i2 ins cs = Inr (res, cs')
           \<and> (let red = reduceLinExp (Modulus cs) (concat (map inputLinExp (i1 # i2 # ins))) in
              if BackendID cs = PLONK \<and> length red \<noteq> 1 then
                LinExp res = [Pack (NbInternalVariables cs) 1 Internal]
                \<and> NbInternalVariables cs' = Suc (NbInternalVariables cs)
                \<and> Constraints cs' = Constraints cs @ [R1C [Pack 0 1 Virtual] red (LinExp res)]
              else
                LinExp res = red
                \<and> NbInternalVariables cs' = NbInternalVariables cs
                \<and> Constraints cs' = Constraints cs)"
proof -
  from toVariables_ok [OF assms] obtain vars s cs1 where
    tv: "toVariables (i1 # i2 # ins) cs = Inr ((vars, s), cs1)"
    by blast
  from toVariables_Inr [OF tv] have
    le: "map LinExp vars = map inputLinExp (i1 # i2 # ins)" and sb: "sameBuild cs cs1"
    by simp_all
  note f = sameBuild_fields [OF sb]
  show ?thesis
    by (simp add: Add_def tv newBool_def plonkSplit_eq Let_def le f)
qed

theorem Add_reduces_and_binds_witness:
  "INil \<notin> set [IVar exampleX, IVar exampleY]
   \<and> INil \<notin> set [IVar exampleX, IVar exampleX]
   \<and> (\<exists>res cs'. Add (IVar exampleX) (IVar exampleY) [] (exampleBuilder PLONK) = Inr (res, cs')
         \<and> LinExp res = [Pack 0 1 Internal]
         \<and> Constraints cs' = [R1C [Pack 0 1 Virtual] [Pack 0 1 Secret, Pack 1 1 Secret] [Pack 0 1 Internal]])
   \<and> (\<exists>res cs'. Add (IVar exampleX) (IVar exampleX) [] (exampleBuilder PLONK) = Inr (res, cs')
         \<and> LinExp res = [Pack 0 2 Secret]
         \<and> Constraints cs' = [] \<and> NbInternalVariables cs' = 0)
   \<and> (\<exists>res cs'. Add (IVar exampleX) (IVar exampleY) [] (exampleBuilder GROTH16) = Inr (res, cs')
         \<and> LinExp res = [Pack 0 1 Secret, Pack 1 1 Secret]
         \<and> Constraints cs' = [] \<and> NbInternalVariables cs' = 0)"
proof -
  have r1: "reduceLinExp 13 [Pack 0 1 Secret, Pack (Suc 0) 1 Secret] = [Pack 0 1 Secret, Pack (Suc 0) 1 Secret]"
    by (simp add: reduceLinExp_def sameWire_def wireBefore_def)
  have r2: "reduceLinExp 13 [Pack 0 1 Secret, Pack 0 1 Secret] = [Pack 0 2 Secret]"
    by (simp add: reduceLinExp_def sameWire_def wireBefore_def setCoeff_def)
  have h1: "INil \<notin> set [IVar exampleX, IVar exampleY]" by simp
  have h2: "INil \<notin> set [IVar exampleX, IVar exampleX]" by simp
  show ?thesis
    using Add_reduces_and_binds [OF h1, of "exampleBuilder PLONK"]
      Add_reduces_and_binds [OF h2, of "exampleBuilder PLONK"]
      Add_reduces_and_binds [OF h1, of "exampleBuilder GROTH16"]
    by (auto simp: exampleBuilder_def exampleX_def exampleY_def inputLinExp_def r1 r2)
qed

section \<open>Inverse and Div on constants\<close>

text \<open>
  The constant branches of \<^verbatim>\<open>Inverse\<close> and \<^verbatim>\<open>Div\<close>, as the code has them. Let \<open>i\<close> be a
  constant of value \<open>c\<close> (a raw integer or a handle
  \<open>ONE_WIRE * c\<close>). When \<open>c\<close> is the integer 0, \<open>Inverse i\<close> panics with "inverse by
  constant(0)" and \<open>Div a i\<close> panics with "div by constant(0)"; a circuit whose \<open>Define\<close>
  makes such a call does not compile, the panic is the error of \<open>compile\<close>. When \<open>c\<close> is
  not 0, both succeed without a new constraint, wire or hint: \<open>Inverse i\<close> is the constant
  \<open>ModInverse c q\<close>, and \<open>Div a i\<close> for a constant \<open>a\<close> of value \<open>n\<close> is the constant
  \<open>(ModInverse c q \<cdot> n) mod q\<close>. For a prime modulus \<open>q\<close> and \<open>c\<close> not a multiple of \<open>q\<close>
  these are the modular inverse and the quotient: \<open>c \<cdot> ModInverse c q \<equiv> 1\<close> and
  \<open>c \<cdot> quotient \<equiv> n\<close> modulo \<open>q\<close>.
\<close>

theorem Inverse_Div_constants:
  assumes "inputConstant i = Some c"
  shows "(c = 0 \<longrightarrow>
            Inverse i cs = Inl InverseByConstantZero
            \<and> (\<exists>e. Div a i cs = Inl e) \<and> (a \<noteq> INil \<longrightarrow> Div a i cs = Inl DivByConstantZero)
            \<and> compile Inr (\<lambda>b. andThen (Inverse i b) (\<lambda>r b'. Inr (None, b'))) finish cs
                 = Inl (Recovered InverseByConstantZero))
       \<and> (c \<noteq> 0 \<longrightarrow>
            (\<exists>res cs'. Inverse i cs = Inr (res, cs')
               \<and> LinExp res = [Pack 0 (ModInverse c (Modulus cs)) Virtual] \<and> sameBuild cs cs')
            \<and> (a \<noteq> INil \<longrightarrow> (\<exists>res cs'. Div a i cs = Inr (res, cs') \<and> sameBuild cs cs'
                 \<and> (\<forall>n. inputConstant a = Some n \<longrightarrow>
                       LinExp res = [Pack 0 ((ModInverse c (Modulus cs) * n) mod Modulus cs) Virtual]))))
       \<and> (primeModulus (Modulus cs) \<and> c mod Modulus cs \<noteq> 0 \<longrightarrow>
            0 \<le> ModInverse c (Modulus cs) \<and> ModInverse c (Modulus cs) < Modulus cs
            \<and> (c * ModInverse c (Modulus cs)) mod Modulus cs = 1
            \<and> (\<forall>n. (c * ((ModInverse c (Modulus cs) * n) mod Modulus cs)) mod Modulus cs
                     = n mod Modulus cs))"
proof (intro conjI impI)
  assume c0: "c = 0"
  from Inverse_constant(1) [OF assms c0] show i0: "Inverse i cs = Inl InverseByConstantZero" .
  from assms c0 have z: "inputConstant i = Some 0" by simp
  from Div_constant_zero(1) [OF z] show "\<exists>e. Div a i cs = Inl e" .
  from i0 show "compile Inr (\<lambda>b. andThen (Inverse i b) (\<lambda>r b'. Inr (None, b'))) finish cs
                 = Inl (Recovered InverseByConstantZero)"
    by (simp add: compile_def)
  assume "a \<noteq> INil"
  from Div_constant_zero(2) [OF z this] show "Div a i cs = Inl DivByConstantZero" .
next
  assume c: "c \<noteq> 0"
  from Inverse_constant(2) [OF assms c] show "\<exists>res cs'. Inverse i cs = Inr (res, cs')
               \<and> LinExp res = [Pack 0 (ModInverse c (Modulus cs)) Virtual] \<and> sameBuild cs cs'" .
  assume "a \<noteq> INil"
  from Div_constant_nonzero [OF assms c this] show "\<exists>res cs'. Div a i cs = Inr (res, cs') \<and> sameBuild cs cs'
                 \<and> (\<forall>n. inputConstant a = Some n \<longrightarrow>
                       LinExp res = [Pack 0 ((ModInverse c (Modulus cs) * n) mod Modulus cs) Virtual])" .
next
  assume "primeModulus (Modulus cs) \<and> c mod Modulus cs \<noteq> 0"
  then have inv: "0 \<le> ModInverse c (Modulus cs) \<and> ModInverse c (Modulus cs) < Modulus cs
            \<and> (c * ModInverse c (Modulus cs)) mod Modulus cs = 1"
    using primeModulus_inverse by blast
  then show "0 \<le> ModInverse c (Modulus cs)" "ModInverse c (Modulus cs) < Modulus cs"
    "(c * ModInverse c (Modulus cs)) mod Modulus cs = 1"
    by simp_all
  show "\<forall>n. (c * ((ModInverse c (Modulus cs) * n) mod Modulus cs)) mod Modulus cs = n mod Modulus cs"
  proof
    fix n
    have "(c * ((ModInverse c (Modulus cs) * n) mod Modulus cs)) mod Modulus cs
            = (((c * ModInverse c (Modulus cs)) mod Modulus cs) * n) mod Modulus cs"
      by (simp add: mod_simps mult.assoc)
    also have "\<dots> = n mod Modulus cs" using inv by simp
    finally show "(c * ((ModInverse c (Modulus cs) * n) mod Modulus cs)) mod Modulus cs
            = n mod Modulus cs" .
  qed
qed

lemma primeModulus_13: "primeModulus 13"
  by code_simp

lemma ModInverse_5_13: "ModInverse 5 13 = 8"
  by code_simp

lemma ModInverse_13_13: "ModInverse 13 13 = 13"
  by code_simp

theorem Inverse_Div_constants_witness:
  "inputConstant (IConst 0) = Some 0
   \<and> Inverse (IConst 0) (exampleBuilder GROTH16) = Inl InverseByConstantZero
   \<and> Div (IVar exampleX) (IConst 0) (exampleBuilder GROTH16) = Inl DivByConstantZero
   \<and> inputConstant (IConst 5) = Some 5 \<and> primeModulus 13 \<and> (5::int) mod 13 \<noteq> 0
   \<and> (\<exists>res cs'. Inverse (IConst 5) (exampleBuilder GROTH16) = Inr (res, cs')
         \<and> LinExp res = [Pack 0 8 Virtual] \<and> Constraints cs' = [])
   \<and> (\<exists>res cs'. Div (IConst 3) (IConst 5) (exampleBuilder GROTH16) = Inr (res, cs')
         \<and> LinExp res = [Pack 0 11 Virtual] \<and> Constraints cs' = [])
   \<and> ((5::int) * 8) mod 13 = 1 \<and> ((5::int) * 11) mod 13 = 3"
proof -
  have h0: "inputConstant (IConst 0) = Some 0" by (simp add: inputConstant_def)
  have h5: "inputConstant (IConst 5) = Some 5" by (simp add: inputConstant_def)
  have h3: "inputConstant (IConst 3) = Some 3" by (simp add: inputConstant_def)
  have m: "Modulus (exampleBuilder GROTH16) = 13" "Constraints (exampleBuilder GROTH16) = []"
    by (simp_all add: exampleBuilder_def)
  from Inverse_Div_constants [OF h0, where cs = "exampleBuilder GROTH16" and a = "IVar exampleX"
      and finish = Inr]
  have a: "Inverse (IConst 0) (exampleBuilder GROTH16) = Inl InverseByConstantZero"
    "Div (IVar exampleX) (IConst 0) (exampleBuilder GROTH16) = Inl DivByConstantZero"
    by simp_all
  from Inverse_Div_constants [OF h5, where cs = "exampleBuilder GROTH16" and a = "IConst 3"
      and finish = Inr] h3
  have b: "\<exists>res cs'. Inverse (IConst 5) (exampleBuilder GROTH16) = Inr (res, cs')
         \<and> LinExp res = [Pack 0 8 Virtual] \<and> Constraints cs' = []"
    "\<exists>res cs'. Div (IConst 3) (IConst 5) (exampleBuilder GROTH16) = Inr (res, cs')
         \<and> LinExp res = [Pack 0 11 Virtual] \<and> Constraints cs' = []"
    by (auto simp: m ModInverse_5_13 sameBuild_def)
  from a b h0 h5 primeModulus_13 show ?thesis by simp
qed

theorem Inverse_constant_counterexample:
  "(13::int) \<noteq> 0
   \<and> Inverse (IConst 13) (exampleBuilder GROTH16)
       = Inr (\<lparr>LinExp = [Pack 0 13 Virtual], IsBoolean = 4\<rparr>,
              (exampleBuilder GROTH16)\<lparr>heap := [False, False, False, False, False]\<rparr>)
   \<and> ((13::int) * 13) mod Modulus (exampleBuilder GROTH16) \<noteq> 1"
  by (simp add: Inverse_def toVariables_def ModInverse_13_13 exampleBuilder_def constVar_def
      IsConstant_def isOneWire_def constantValue_def)

section \<open>ToBinary on a constant\<close>

text \<open>
  Claim C10. For every constant input of value \<open>c\<close> and every \<open>n \<ge> 0\<close>, \<open>ToBinary\<close>
  succeeds and returns \<open>n\<close> constants, the \<open>i\<close>-th being bit \<open>i\<close> of \<open>c\<close> (little endian).
  The builder is left as it was: the constraints, the number of internal wires, the hints
  and the debug table are unchanged, and the heap of boolean markers only gains fresh
  cells, all false, so no boolean assertion is recorded.
\<close>

theorem ToBinary_constant:
  assumes "inputConstant a = Some c" and "0 \<le> n"
  shows "\<exists>bs cs'. ToBinary a [n] cs = Inr (bs, cs')
           \<and> length bs = nat n
           \<and> map LinExp bs = map (\<lambda>i. [Pack 0 (if bit c i then 1 else 0) Virtual]) [0..<nat n]
           \<and> list_all IsConstant bs
           \<and> sameBuild cs cs'"
proof -
  from inputConstant_toVariables1 [OF assms(1), of cs] obtain v s cs1 where
    tv: "toVariables [a] cs = Inr (([v], s), cs1)" and v: "IsConstant v" "constantValue v = Inr c"
    and sb: "sameBuild cs cs1"
    by blast
  from constantBitsLoop_ok [of c "[0..<nat n]" "[]" cs1] obtain bs cs' where
    l: "constantBitsLoop c [0..<nat n] [] cs1 = Inr (bs, cs')"
    and m: "map LinExp bs = map (\<lambda>i. [Pack 0 (if bit c i then 1 else 0) Virtual]) [0..<nat n]"
    and sb': "sameBuild cs1 cs'"
    by auto
  have t: "ToBinary a [n] cs = Inr (bs, cs')"
    using assms(2) v l by (simp add: ToBinary_def tv)
  from m have len: "length bs = nat n"
    by (metis length_map length_upt diff_zero)
  have "\<forall>b \<in> set bs. IsConstant b"
  proof
    fix b assume "b \<in> set bs"
    then have "LinExp b \<in> set (map LinExp bs)" by simp
    then obtain i where "LinExp b = [Pack 0 (if bit c i then 1 else 0) Virtual]"
      unfolding m by auto
    then show "IsConstant b" by (simp add: IsConstant_def isOneWire_def)
  qed
  then have "list_all IsConstant bs" by (simp add: list_all_iff)
  with t len m sb sb' show ?thesis
    by (blast intro: sameBuild_trans)
qed

theorem ToBinary_constant_witness:
  "inputConstant (IConst 5) = Some 5 \<and> (0::int) \<le> 4
   \<and> (\<exists>bs cs'. ToBinary (IConst 5) [4] (exampleBuilder GROTH16) = Inr (bs, cs')
        \<and> map LinExp bs = [[Pack 0 1 Virtual], [Pack 0 0 Virtual], [Pack 0 1 Virtual], [Pack 0 0 Virtual]]
        \<and> Constraints cs' = [] \<and> MHints cs' = [] \<and> NbInternalVariables cs' = 0
        \<and> set (heap cs') \<subseteq> {False})"
proof -
  have h: "inputConstant (IConst 5) = Some 5" by (simp add: inputConstant_def)
  have b: "map (\<lambda>i. [Pack 0 (if bit (5::int) i then 1 else 0) Virtual]) [0..<nat 4]
             = [[Pack 0 1 Virtual], [Pack 0 0 Virtual], [Pack 0 1 Virtual], [Pack 0 0 Virtual]]"
    by code_simp
  from ToBinary_constant [OF h, of 4 "exampleBuilder GROTH16"] obtain bs cs' where
    t: "ToBinary (IConst 5) [4] (exampleBuilder GROTH16) = Inr (bs, cs')"
    and m: "map LinExp bs = map (\<lambda>i. [Pack 0 (if bit (5::int) i then 1 else 0) Virtual]) [0..<nat 4]"
    and sb: "sameBuild (exampleBuilder GROTH16) cs'"
    by auto
  from sb obtain k where hk: "heap cs' = [False, False, False] @ replicate k False"
    unfolding sameBuild_def exampleBuilder_def by auto
  have hs: "set (heap cs') \<subseteq> {False}" by (subst hk) auto
  from sb have "Constraints cs' = []" "MHints cs' = []" "NbInternalVariables cs' = 0"
    by (simp_all add: sameBuild_def exampleBuilder_def)
  with hs have "Constraints cs' = [] \<and> MHints cs' = [] \<and> NbInternalVariables cs' = 0
         \<and> set (heap cs') \<subseteq> {False}"
    by simp
  then show ?thesis using h t m b by auto
qed


lemma Select_example:
  "Select (IVar exampleS) (IVar exampleX) (IVar exampleY) (exampleBuilder GROTH16)
     = Inr (\<lparr>LinExp = [Pack 0 1 Internal, Pack 1 1 Secret], IsBoolean = 7\<rparr>,
            \<lparr>Constraints =
               [R1C [Pack 2 1 Secret] [Pack 2 (- 1) Secret, Pack 0 1 Virtual] [Pack 0 0 Virtual],
                R1C [Pack 2 1 Secret] [Pack 0 1 Secret, Pack 1 (- 1) Secret] [Pack 0 1 Internal]],
             NbInternalVariables = 1, MHints = [],
             MDebug = [(0, [DText ''assertIsBoolean'', DTerms [Pack 2 1 Secret], DText '' == (0|1)''])],
             BackendID = GROTH16, Modulus = 13,
             heap = [False, False, True, False, False, False, False, False]\<rparr>)"
  by code_simp


text \<open>
  The two branches of \<^verbatim>\<open>IsZero\<close>, as the code has them. For a constant input whose big
  integer is \<open>c\<close>, \<open>IsZero\<close> returns the constant 1 when the integer \<open>c\<close> is 0 and the
  constant 0 otherwise, and adds nothing to the system. For an input \<open>a\<close>
  that is not a constant (and mentions only wires allocated so far), \<open>IsZero\<close> succeeds
  and returns a fresh internal wire \<open>m\<close>; it records an \<open>IsZero\<close> hint with output \<open>m\<close> and
  input \<open>a\<close>, emits the constraint \<open>a \<cdot> m = 0\<close>, emits the boolean constraint of \<open>m\<close>, and
  emits \<open>inv \<cdot> ma = 1\<close> for a variable \<open>ma\<close> whose value is \<open>m + a\<close>. Under every assignment
  that satisfies the resulting system over a prime field, \<open>m\<close> is 0 or 1, and \<open>m = 1\<close>
  exactly when \<open>a = 0\<close>.
\<close>

theorem IsZero_correct:
  "(inputConstant i = Some c \<longrightarrow>
      (\<exists>res cs'. IsZero i cs = Inr (res, cs')
         \<and> LinExp res = [Pack 0 (if c = 0 then 1 else 0) Virtual] \<and> sameBuild cs cs'))
   \<and> (\<not> IsConstant a \<and> internalBelow (NbInternalVariables cs) (LinExp a) \<longrightarrow>
      (\<exists>m cs' iv ma. IsZero (IVar a) cs = Inr (m, cs')
         \<and> LinExp m = [Pack (NbInternalVariables cs) 1 Internal]
         \<and> MHints cs' = MHints cs @
              [\<lparr>HintID = HintIsZero, HintWire = NbInternalVariables cs, HintInputs = [LinExp a]\<rparr>]
         \<and> R1C (LinExp a) (LinExp m) [Pack 0 0 Virtual] \<in> set (Constraints cs')
         \<and> booleanConstraint (Modulus cs) (LinExp m) \<in> set (Constraints cs')
         \<and> R1C iv ma [Pack 0 1 Virtual] \<in> set (Constraints cs')
         \<and> (\<forall>w. oneWire w \<and> satisfies (Modulus cs) w (Constraints cs') \<longrightarrow>
               evalLinExp (Modulus cs) w ma
                 = (evalLinExp (Modulus cs) w (LinExp m) + evalLinExp (Modulus cs) w (LinExp a))
                     mod Modulus cs)
         \<and> (\<forall>w. primeModulus (Modulus cs) \<and> oneWire w \<and> satisfies (Modulus cs) w (Constraints cs') \<longrightarrow>
               (evalLinExp (Modulus cs) w (LinExp m) = 0 \<or> evalLinExp (Modulus cs) w (LinExp m) = 1)
               \<and> (evalLinExp (Modulus cs) w (LinExp m) = 1
                    \<longleftrightarrow> evalLinExp (Modulus cs) w (LinExp a) = 0))))"
proof (intro conjI impI)
  assume "inputConstant i = Some c"
  then show "\<exists>res cs'. IsZero i cs = Inr (res, cs')
         \<and> LinExp res = [Pack 0 (if c = 0 then 1 else 0) Virtual] \<and> sameBuild cs cs'"
    by (rule IsZero_constant)
next
  let ?q = "Modulus cs"
  assume "\<not> IsConstant a \<and> internalBelow (NbInternalVariables cs) (LinExp a)"
  then have nc: "\<not> IsConstant a" and ib: "internalBelow (NbInternalVariables cs) (LinExp a)"
    by simp_all
  from IsZero_var [OF nc ib] obtain m cs' iv ma where
    iz: "IsZero (IVar a) cs = Inr (m, cs')"
    and lm: "LinExp m = [Pack (NbInternalVariables cs) 1 Internal]"
    and h: "MHints cs' = MHints cs @
              [\<lparr>HintID = HintIsZero, HintWire = NbInternalVariables cs, HintInputs = [LinExp a]\<rparr>]"
    and c1: "R1C (LinExp a) (LinExp m) [Pack 0 0 Virtual] \<in> set (Constraints cs')"
    and c2: "booleanConstraint ?q (LinExp m) \<in> set (Constraints cs')"
    and c3: "R1C iv ma [Pack 0 1 Virtual] \<in> set (Constraints cs')"
    and sem: "\<forall>w. oneWire w \<and> satisfies ?q w (Constraints cs') \<longrightarrow>
               evalLinExp ?q w ma
                 = (evalLinExp ?q w (LinExp m) + evalLinExp ?q w (LinExp a)) mod ?q"
    by blast
  have snd: "\<forall>w. primeModulus ?q \<and> oneWire w \<and> satisfies ?q w (Constraints cs') \<longrightarrow>
               (evalLinExp ?q w (LinExp m) = 0 \<or> evalLinExp ?q w (LinExp m) = 1)
               \<and> (evalLinExp ?q w (LinExp m) = 1 \<longleftrightarrow> evalLinExp ?q w (LinExp a) = 0)"
  proof (intro allI impI)
    fix w assume a: "primeModulus ?q \<and> oneWire w \<and> satisfies ?q w (Constraints cs')"
    then have p: "primeModulus ?q" and w: "oneWire w" and sat: "satisfies ?q w (Constraints cs')"
      by simp_all
    from sem w sat have s: "evalLinExp ?q w ma
                 = (evalLinExp ?q w (LinExp m) + evalLinExp ?q w (LinExp a)) mod ?q"
      by blast
    from IsZero_sound [OF p w sat c1 c2 c3 s]
    show "(evalLinExp ?q w (LinExp m) = 0 \<or> evalLinExp ?q w (LinExp m) = 1)
               \<and> (evalLinExp ?q w (LinExp m) = 1 \<longleftrightarrow> evalLinExp ?q w (LinExp a) = 0)" .
  qed
  from iz lm h c1 c2 c3 sem snd
  show "\<exists>m cs' iv ma. IsZero (IVar a) cs = Inr (m, cs')
         \<and> LinExp m = [Pack (NbInternalVariables cs) 1 Internal]
         \<and> MHints cs' = MHints cs @
              [\<lparr>HintID = HintIsZero, HintWire = NbInternalVariables cs, HintInputs = [LinExp a]\<rparr>]
         \<and> R1C (LinExp a) (LinExp m) [Pack 0 0 Virtual] \<in> set (Constraints cs')
         \<and> booleanConstraint ?q (LinExp m) \<in> set (Constraints cs')
         \<and> R1C iv ma [Pack 0 1 Virtual] \<in> set (Constraints cs')
         \<and> (\<forall>w. oneWire w \<and> satisfies ?q w (Constraints cs') \<longrightarrow>
               evalLinExp ?q w ma
                 = (evalLinExp ?q w (LinExp m) + evalLinExp ?q w (LinExp a)) mod ?q)
         \<and> (\<forall>w. primeModulus ?q \<and> oneWire w \<and> satisfies ?q w (Constraints cs') \<longrightarrow>
               (evalLinExp ?q w (LinExp m) = 0 \<or> evalLinExp ?q w (LinExp m) = 1)
               \<and> (evalLinExp ?q w (LinExp m) = 1 \<longleftrightarrow> evalLinExp ?q w (LinExp a) = 0))"
    by blast
qed

lemma IsZero_example:
  "IsZero (IVar exampleX) (exampleBuilder GROTH16)
     = Inr (\<lparr>LinExp = [Pack 0 1 Internal], IsBoolean = 3\<rparr>,
            \<lparr>Constraints =
               [R1C [Pack 0 1 Secret] [Pack 0 1 Internal] [Pack 0 0 Virtual],
                R1C [Pack 0 1 Internal] [Pack 0 (- 1) Internal, Pack 0 1 Virtual] [Pack 0 0 Virtual],
                R1C [Pack 1 1 Internal] [Pack 0 1 Internal, Pack 0 1 Secret] [Pack 0 1 Virtual]],
             NbInternalVariables = 2,
             MHints = [\<lparr>HintID = HintIsZero, HintWire = 0, HintInputs = [[Pack 0 1 Secret]]\<rparr>],
             MDebug =
               [(0, [DText ''isZero'', DTerms [Pack 0 1 Secret]]),
                (1, [DText ''assertIsBoolean'', DTerms [Pack 0 1 Internal], DText '' == (0|1)'']),
                (2, [DText ''inverse'', DTerms [Pack 0 1 Internal, Pack 0 1 Secret], DText ''*'',
                     DTerms [Pack 1 1 Internal], DText '' == 1''])],
             BackendID = GROTH16, Modulus = 13,
             heap = [False, False, False, True, False, False, False, False, False, False]\<rparr>)"
  by code_simp

theorem IsZero_correct_witness:
  "inputConstant (IConst 0) = Some 0
   \<and> (\<exists>res cs'. IsZero (IConst 0) (exampleBuilder GROTH16) = Inr (res, cs')
         \<and> LinExp res = [Pack 0 1 Virtual])
   \<and> \<not> IsConstant exampleX
   \<and> internalBelow (NbInternalVariables (exampleBuilder GROTH16)) (LinExp exampleX)
   \<and> primeModulus 13
   \<and> (\<exists>m cs'. IsZero (IVar exampleX) (exampleBuilder GROTH16) = Inr (m, cs')
         \<and> oneWire (exampleAssignment [5] [0, 8])
         \<and> satisfies 13 (exampleAssignment [5] [0, 8]) (Constraints cs')
         \<and> evalLinExp 13 (exampleAssignment [5] [0, 8]) (LinExp exampleX) = 5
         \<and> evalLinExp 13 (exampleAssignment [5] [0, 8]) (LinExp m) = 0
         \<and> hintValue HintIsZero 13 [5] = 0
         \<and> oneWire (exampleAssignment [0] [1, 1])
         \<and> satisfies 13 (exampleAssignment [0] [1, 1]) (Constraints cs')
         \<and> evalLinExp 13 (exampleAssignment [0] [1, 1]) (LinExp exampleX) = 0
         \<and> evalLinExp 13 (exampleAssignment [0] [1, 1]) (LinExp m) = 1
         \<and> hintValue HintIsZero 13 [0] = 1)"
proof -
  let ?cs = "exampleBuilder GROTH16"
  let ?w5 = "exampleAssignment [5] [0, 8]" and ?w0 = "exampleAssignment [0] [1, 1]"
  have q: "Modulus ?cs = 13" by (simp add: exampleBuilder_def)
  have h0: "inputConstant (IConst 0) = Some 0" by (simp add: inputConstant_def)
  have h1: "\<not> IsConstant exampleX" by (simp add: IsConstant_def exampleX_def isOneWire_def)
  have h2: "internalBelow (NbInternalVariables ?cs) (LinExp exampleX)"
    by (simp add: internalBelow_def exampleX_def)
  have p: "primeModulus 13" by (rule primeModulus_13)
  from IsZero_correct [of "IConst 0" 0 ?cs exampleX] h0
  have c: "\<exists>res cs'. IsZero (IConst 0) ?cs = Inr (res, cs') \<and> LinExp res = [Pack 0 1 Virtual]"
    by auto
  from IsZero_correct [of "IConst 0" 0 ?cs exampleX] h1 h2 obtain m cs' where
    iz: "IsZero (IVar exampleX) ?cs = Inr (m, cs')" and
    sem: "\<And>w. oneWire w \<Longrightarrow> satisfies 13 w (Constraints cs') \<Longrightarrow>
            (evalLinExp 13 w (LinExp m) = 0 \<or> evalLinExp 13 w (LinExp m) = 1)
            \<and> (evalLinExp 13 w (LinExp m) = 1 \<longleftrightarrow> evalLinExp 13 w (LinExp exampleX) = 0)"
    unfolding q using p by blast
  from iz have cons: "Constraints cs' =
      [R1C [Pack 0 1 Secret] [Pack 0 1 Internal] [Pack 0 0 Virtual],
       R1C [Pack 0 1 Internal] [Pack 0 (- 1) Internal, Pack 0 1 Virtual] [Pack 0 0 Virtual],
       R1C [Pack 1 1 Internal] [Pack 0 1 Internal, Pack 0 1 Secret] [Pack 0 1 Virtual]]"
    unfolding IsZero_example by auto
  have w5: "oneWire ?w5" and w0: "oneWire ?w0" by (simp_all add: oneWire_def exampleAssignment_def)
  have s5: "satisfies 13 ?w5 (Constraints cs')" unfolding cons by code_simp
  have s0: "satisfies 13 ?w0 (Constraints cs')" unfolding cons by code_simp
  have a5: "evalLinExp 13 ?w5 (LinExp exampleX) = 5" by code_simp
  have a0: "evalLinExp 13 ?w0 (LinExp exampleX) = 0" by code_simp
  have hv: "hintValue HintIsZero 13 [5] = 0" "hintValue HintIsZero 13 [0] = 1" by code_simp+
  from sem [OF w5 s5] a5 have m5: "evalLinExp 13 ?w5 (LinExp m) = 0" by auto
  from sem [OF w0 s0] a0 have m0: "evalLinExp 13 ?w0 (LinExp m) = 1" by auto
  from h0 c h1 h2 p iz w5 s5 a5 m5 hv w0 s0 a0 m0 show ?thesis by blast
qed

lemma AssertIsEqual_INil: "AssertIsEqual INil i cs = Inl UnsupportedInput"
  by (simp add: AssertIsEqual_def toVariables_def constantV_def)

lemma toBinaryVar_one_bit: "toBinaryVar a 1 unsafe cs \<noteq> Inr r"
  by (auto simp: toBinaryVar_def andThen_eq_Inr AssertIsEqual_INil split: option.splits)

text \<open>
  Claim C4 (round trip of \<^verbatim>\<open>ToBinary\<close> and \<^verbatim>\<open>FromBinary\<close>, for every \<open>n \<ge> 1\<close>). The code
  does not reach \<^verbatim>\<open>FromBinary\<close> when \<open>n = 1\<close>: for every input \<open>a\<close> that is not a constant
  and every builder, \<^verbatim>\<open>ToBinary(a, 1)\<close> panics. After \<^verbatim>\<open>AssertIsEqual(sb[0], a)\<close> the
  function goes on to \<^verbatim>\<open>AssertIsEqual(\<Sigma>bi, a)\<close>, and \<^verbatim>\<open>\<Sigma>bi\<close> was never assigned.
\<close>

theorem ToBinary_one_bit_panics:
  assumes "\<not> IsConstant a"
  shows "\<exists>p. ToBinary (IVar a) [1] cs = Inl p"
proof (cases "toBinaryVar a 1 False cs")
  case (Inl p)
  with assms show ?thesis by (simp add: ToBinary_def)
next
  case (Inr r)
  with toBinaryVar_one_bit show ?thesis by blast
qed

theorem ToBinary_one_bit_panics_witness:
  "\<not> IsConstant exampleX \<and> (\<exists>p. ToBinary (IVar exampleX) [1] (exampleBuilder GROTH16) = Inl p)"
  using ToBinary_one_bit_panics [of exampleX "exampleBuilder GROTH16"]
  by (simp add: IsConstant_def exampleX_def isOneWire_def)

text \<open>
  Claim C1 (for every input \<open>a\<close>, \<open>IsZero a\<close> is 1 exactly when \<open>a = 0\<close>; on a constant it
  returns the constant 1 when \<open>a = 0\<close> and the constant 0 otherwise). The code departs from
  it on a constant that is a nonzero multiple of the field order: such an input has the
  value 0 in the field under every assignment, and \<open>IsZero\<close> returns the constant 0, not
  1. The constant branch compares the big integer with 0 and never reduces it, while the
  branch for a variable constrains the result by the value in the field.
\<close>

theorem IsZero_multiple_of_modulus:
  assumes "inputConstant i = Some c" and "c \<noteq> 0" and "c mod Modulus cs = 0"
  shows "\<exists>res cs'. IsZero i cs = Inr (res, cs') \<and> LinExp res = [Pack 0 0 Virtual]
           \<and> (\<forall>w. oneWire w \<longrightarrow>
                 evalInput (Modulus cs) w i = 0 \<and> evalLinExp (Modulus cs) w (LinExp res) = 0)"
proof -
  from IsZero_constant [OF assms(1), of cs] assms(2) obtain res cs' where
    iz: "IsZero i cs = Inr (res, cs')" and l: "LinExp res = [Pack 0 0 Virtual]"
    by auto
  have "evalInput (Modulus cs) w i = 0 \<and> evalLinExp (Modulus cs) w (LinExp res) = 0"
    if "oneWire w" for w
    using evalInput_constant [OF assms(1) that, of "Modulus cs"] assms(3) l
    by (simp add: evalLinExp_def evalTerm_def)
  with iz l show ?thesis by blast
qed

theorem IsZero_multiple_of_modulus_witness:
  "inputConstant (IConst 13) = Some 13 \<and> (13::int) \<noteq> 0
   \<and> 13 mod Modulus (exampleBuilder GROTH16) = 0
   \<and> oneWire (exampleAssignment [] [])
   \<and> evalInput 13 (exampleAssignment [] []) (IConst 13) = 0
   \<and> (\<exists>res cs'. IsZero (IConst 13) (exampleBuilder GROTH16) = Inr (res, cs')
         \<and> LinExp res = [Pack 0 0 Virtual]
         \<and> evalLinExp 13 (exampleAssignment [] []) (LinExp res) = 0)"
proof -
  have h: "inputConstant (IConst 13) = Some 13" by (simp add: inputConstant_def)
  have m: "Modulus (exampleBuilder GROTH16) = 13" by (simp add: exampleBuilder_def)
  have w: "oneWire (exampleAssignment [] [])" by (simp add: oneWire_def exampleAssignment_def)
  from IsZero_multiple_of_modulus [OF h, of "exampleBuilder GROTH16"] w
  show ?thesis by (auto simp: m h)
qed

text \<open>
  Claim C9 (\<open>Inverse\<close> of the constant 0 and \<open>Div\<close> by a constant-zero divisor fail at
  circuit-build time; on nonzero constants they fold to the modular inverse and the
  quotient). The code departs from it on a constant that is a nonzero multiple of the
  field order, which is zero in the field and has no inverse. The guard compares the big
  integer with 0, and the result of \<^verbatim>\<open>ModInverse\<close> is not looked at: \<open>Inverse\<close> does not
  fail and returns the constant unchanged, which is no inverse of it (the product is 0,
  not 1), and \<open>Div\<close> by such a constant does not fail either; a circuit that makes these
  calls compiles.
\<close>

theorem Inverse_multiple_of_modulus:
  assumes "inputConstant i = Some c" and "c \<noteq> 0" and "c mod Modulus cs = 0"
    and "1 < Modulus cs" and "a \<noteq> INil"
  shows "(\<exists>res cs'. Inverse i cs = Inr (res, cs') \<and> LinExp res = [Pack 0 c Virtual]
            \<and> sameBuild cs cs'
            \<and> (\<forall>w. oneWire w \<longrightarrow>
                  evalInput (Modulus cs) w i = 0
                  \<and> (evalInput (Modulus cs) w i * evalLinExp (Modulus cs) w (LinExp res))
                        mod Modulus cs = 0))
       \<and> (\<exists>res cs'. Div a i cs = Inr (res, cs') \<and> sameBuild cs cs')
       \<and> (\<exists>cs'. compile Inr (\<lambda>b. andThen (Inverse i b) (\<lambda>r b'. Inr (None, b'))) Inr cs
                  = Inr cs')"
proof -
  from ModInverse_zero_divisor [OF assms(3,4)] have mi: "ModInverse c (Modulus cs) = c" .
  from Inverse_constant(2) [OF assms(1,2), of cs] obtain res cs' where
    iv: "Inverse i cs = Inr (res, cs')" and l: "LinExp res = [Pack 0 c Virtual]"
    and sb: "sameBuild cs cs'"
    unfolding mi by blast
  have z: "evalInput (Modulus cs) w i = 0" if "oneWire w" for w
    using evalInput_constant [OF assms(1) that, of "Modulus cs"] assms(3) by simp
  from Div_constant_nonzero [OF assms(1,2,5), of cs]
  have d: "\<exists>res cs'. Div a i cs = Inr (res, cs') \<and> sameBuild cs cs'" by blast
  have c: "\<exists>cs'. compile Inr (\<lambda>b. andThen (Inverse i b) (\<lambda>r b'. Inr (None, b'))) Inr cs
                  = Inr cs'"
    using iv by (simp add: compile_def)
  from iv l sb z d c show ?thesis by auto
qed

theorem Inverse_multiple_of_modulus_witness:
  "inputConstant (IConst 13) = Some 13 \<and> (13::int) \<noteq> 0
   \<and> 13 mod Modulus (exampleBuilder GROTH16) = 0 \<and> 1 < Modulus (exampleBuilder GROTH16)
   \<and> IVar exampleX \<noteq> INil
   \<and> (\<exists>res cs'. Inverse (IConst 13) (exampleBuilder GROTH16) = Inr (res, cs')
         \<and> LinExp res = [Pack 0 13 Virtual] \<and> Constraints cs' = [])
   \<and> (\<exists>res cs'. Div (IVar exampleX) (IConst 13) (exampleBuilder GROTH16) = Inr (res, cs')
         \<and> Constraints cs' = [])
   \<and> (\<exists>cs'. compile Inr (\<lambda>b. andThen (Inverse (IConst 13) b) (\<lambda>r b'. Inr (None, b'))) Inr
                 (exampleBuilder GROTH16) = Inr cs')"
proof -
  have h: "inputConstant (IConst 13) = Some 13" by (simp add: inputConstant_def)
  have m: "Modulus (exampleBuilder GROTH16) = 13" "Constraints (exampleBuilder GROTH16) = []"
    by (simp_all add: exampleBuilder_def)
  have x: "IVar exampleX \<noteq> INil" by simp
  from Inverse_multiple_of_modulus [OF h _ _ _ x, of "exampleBuilder GROTH16"]
  show ?thesis by (auto simp: m h sameBuild_def)
qed

section \<open>Blinding\<close>

lemma sum_list_update:
  assumes "k < n" and "n \<le> length p"
  shows "(\<Sum>i<n. (p[k := v]) ! i * x ^ i) = (\<Sum>i<n. p ! i * x ^ i) + (v - p ! k) * (x::int) ^ k"
proof -
  have f: "finite {..<n}" and kin: "k \<in> {..<n}" using assms by simp_all
  have "(\<Sum>i<n. (p[k := v]) ! i * x ^ i)
          = (p[k := v]) ! k * x ^ k + (\<Sum>i\<in>{..<n} - {k}. (p[k := v]) ! i * x ^ i)"
    by (rule sum.remove [OF f kin])
  also have "(\<Sum>i\<in>{..<n} - {k}. (p[k := v]) ! i * x ^ i) = (\<Sum>i\<in>{..<n} - {k}. p ! i * x ^ i)"
    by (rule sum.cong) auto
  also have "(p[k := v]) ! k = v" using assms by simp
  finally have a: "(\<Sum>i<n. (p[k := v]) ! i * x ^ i) = v * x ^ k + (\<Sum>i\<in>{..<n} - {k}. p ! i * x ^ i)" .
  have b: "(\<Sum>i<n. p ! i * x ^ i) = p ! k * x ^ k + (\<Sum>i\<in>{..<n} - {k}. p ! i * x ^ i)"
    by (rule sum.remove [OF f kin])
  from a b show ?thesis by (simp add: algebra_simps)
qed


lemma u64_small [simp]: "n < 2 ^ 64 \<Longrightarrow> u64 n = n"
  by (simp add: u64_def)

lemma blindPoly_example:
  "blindPoly 13 (\<lambda>i. [3, 4] ! i) \<lparr>cells = [1, 2, 3, 4, 0, 0], len = 4\<rparr> 4 1
     = Inr \<lparr>cells = [11, 11, 3, 4, 3, 4], len = 6\<rparr>"
  by (simp add: blindPoly_def cap_def u64_def Let_def upt_rec)

lemma mod_cong_add_mult:
  "t mod q = t' mod q \<Longrightarrow> (S + t * X) mod q = (S + t' * X) mod (q::int)"
  by (metis mod_add_right_eq mod_mult_left_eq)

lemma blindLoop_length:
  "blindLoop q bp rou js res = Inr r \<Longrightarrow> length r = length res"
proof (induction js arbitrary: res)
  case Nil
  then show ?case by simp
next
  case (Cons i js)
  then show ?case
    by (auto simp: Let_def split: if_splits)
qed

lemma blindLoop_sum:
  assumes "blindLoop q bp rou js res = Inr r"
    and "\<forall>i \<in> set js. rou + i < 2 ^ 64"
  shows "(\<Sum>i<length r. r ! i * x ^ i) mod q
           = ((\<Sum>i<length res. res ! i * x ^ i) + (\<Sum>i\<leftarrow>js. bp ! i * (x ^ (rou + i) - x ^ i))) mod q"
  using assms
proof (induction js arbitrary: res)
  case Nil
  then show ?case by simp
next
  case (Cons i js)
  let ?b = "bp ! i"
  let ?n = "length res"
  let ?res1 = "res[i := (res ! i - ?b) mod q]"
  let ?j = "rou + i"
  let ?res2 = "?res1[?j := (?res1 ! ?j + ?b) mod q]"
  from Cons.prems(2) have nw: "rou + i < 2 ^ 64" and nws: "\<forall>i \<in> set js. rou + i < 2 ^ 64"
    by simp_all
  from Cons.prems(1) nw have i: "i < ?n" and j: "?j < ?n"
    and l: "blindLoop q bp rou js ?res2 = Inr r"
    by (auto simp: Let_def split: if_splits)
  let ?S = "\<lambda>p. (\<Sum>k<?n. p ! k * x ^ k)"
  have s1: "?S ?res1 = ?S res + ((res ! i - ?b) mod q - res ! i) * x ^ i"
    using i by (intro sum_list_update) simp_all
  have s2: "?S ?res2 = ?S ?res1 + ((?res1 ! ?j + ?b) mod q - ?res1 ! ?j) * x ^ ?j"
    using j by (intro sum_list_update) simp_all
  have t1: "((res ! i - ?b) mod q - res ! i) mod q = (- ?b) mod q"
    by (simp add: mod_simps)
  have t2: "((?res1 ! ?j + ?b) mod q - ?res1 ! ?j) mod q = ?b mod q"
    by (simp add: mod_simps)
  have "?S ?res2 mod q = (?S ?res1 + ?b * x ^ ?j) mod q"
    unfolding s2 by (rule mod_cong_add_mult [OF t2])
  also have "\<dots> = (?b * x ^ ?j + ?S ?res1) mod q" by (simp add: add.commute)
  also have "\<dots> = (?b * x ^ ?j + ?S ?res1 mod q) mod q" by (simp add: mod_simps)
  also have "?S ?res1 mod q = (?S res + (- ?b) * x ^ i) mod q"
    unfolding s1 by (rule mod_cong_add_mult [OF t1])
  also have "(?b * x ^ ?j + (?S res + (- ?b) * x ^ i) mod q) mod q
               = (?S res + ?b * (x ^ ?j - x ^ i)) mod q"
    by (simp add: mod_simps algebra_simps)
  finally have step: "?S ?res2 mod q = (?S res + ?b * (x ^ ?j - x ^ i)) mod q" .
  have "(\<Sum>k<length r. r ! k * x ^ k) mod q
          = ((\<Sum>k<length ?res2. ?res2 ! k * x ^ k)
              + (\<Sum>k\<leftarrow>js. bp ! k * (x ^ (rou + k) - x ^ k))) mod q"
    using Cons.IH [OF l nws] .
  also have "\<dots> = (?S ?res2 mod q + (\<Sum>k\<leftarrow>js. bp ! k * (x ^ (rou + k) - x ^ k))) mod q"
    by (simp add: mod_simps)
  also have "\<dots> = ((?S res + ?b * (x ^ ?j - x ^ i)) mod q
                      + (\<Sum>k\<leftarrow>js. bp ! k * (x ^ (rou + k) - x ^ k))) mod q"
    by (simp only: step)
  also have "\<dots> = (?S res + (\<Sum>k\<leftarrow>i # js. bp ! k * (x ^ (rou + k) - x ^ k))) mod q"
    by (simp add: mod_simps algebra_simps)
  finally show ?case .
qed

lemma blindLoop_ok:
  assumes "\<forall>i \<in> set js. i < length bp \<and> rou + i < length res \<and> rou + i < 2 ^ 64"
  shows "\<exists>r. blindLoop q bp rou js res = Inr r"
  using assms
proof (induction js arbitrary: res)
  case Nil
  then show ?case by simp
next
  case (Cons i js)
  let ?res1 = "res[i := (res ! i - bp ! i) mod q]"
  let ?res2 = "?res1[rou + i := (?res1 ! (rou + i) + bp ! i) mod q]"
  from Cons.prems have a: "i < length bp" "rou + i < length res" "rou + i < 2 ^ 64"
    and b: "\<forall>i \<in> set js. i < length bp \<and> rou + i < length ?res2 \<and> rou + i < 2 ^ 64"
    by simp_all
  from Cons.IH [OF b] obtain r where "blindLoop q bp rou js ?res2 = Inr r" by blast
  with a show ?case by (simp add: Let_def)
qed

lemma blinding_factor:
  "(\<Sum>i\<leftarrow>[0..<n]. bp ! i * (x ^ (rou + i) - x ^ i)) = (\<Sum>i<n. bp ! i * x ^ i) * (x ^ rou - (1::int))"
proof -
  have "(\<Sum>i\<leftarrow>[0..<n]. bp ! i * (x ^ (rou + i) - x ^ i)) = (\<Sum>i<n. bp ! i * (x ^ (rou + i) - x ^ i))"
    by (simp add: interv_sum_list_conv_sum_set_nat atLeast0LessThan)
  also have "\<dots> = (\<Sum>i<n. (bp ! i * x ^ i) * (x ^ rou - 1))"
    by (rule sum.cong) (simp_all add: power_add algebra_simps)
  also have "\<dots> = (\<Sum>i<n. bp ! i * x ^ i) * (x ^ rou - 1)"
    by (simp add: sum_distrib_right)
  finally show ?thesis .
qed

lemma evalPoly_cong_mod:
  "(\<Sum>i<length p. p ! i * x ^ i) mod q = (\<Sum>i<length p'. p' ! i * x ^ i) mod q
     \<Longrightarrow> evalPoly q p x = evalPoly q p' x"
  by (simp add: evalPoly_def)

lemma mod_add_mult_cong:
  "a mod q = (b + c * y) mod q \<Longrightarrow> a mod q = (b mod q + (c mod q) * y) mod (q::int)"
  by (metis mod_add_eq mod_add_right_eq mod_mult_left_eq)

lemma blindPoly_Inr:
  assumes c: "rou + bo + 1 \<le> cap cp" and w: "rou + bo + 1 < 2 ^ 64"
  shows "\<exists>res. blindPoly q rnd cp rou bo = Inr res \<and> len res = rou + bo + 1 \<and> cap res = cap cp
           \<and> (\<forall>x. evalPoly q (coefficients res) x
                   = (evalPoly q (take (rou + bo + 1) (cells cp)) x
                        + evalPoly q (map (\<lambda>i. rnd i mod q) [0..<bo + 1]) x * (x ^ rou - 1)) mod q)"
proof -
  define hi where "hi = rou + bo + 1"
  define P where "P = take hi (cells cp)"
  define Q where "Q = map (\<lambda>i. rnd i mod q) [0..<bo + 1]"
  define js where "js = [0..<bo + 1]"
  from w have u1: "u64 (rou + bo) = rou + bo" and u2: "u64 (bo + 1) = bo + 1"
    and u3: "u64 (rou + bo + 1) = hi"
    by (simp_all add: u64_def hi_def)
  from c have lp: "length P = hi" by (simp add: cap_def P_def hi_def)
  have lq: "length Q = bo + 1" by (simp add: Q_def)
  have pre: "\<forall>i \<in> set js. i < length Q \<and> rou + i < length P \<and> rou + i < 2 ^ 64"
    using w unfolding lp lq js_def hi_def by auto
  from blindLoop_ok [OF pre] obtain r where r: "blindLoop q Q rou js P = Inr r"
    by blast
  have lr: "length r = hi" using blindLoop_length [OF r] lp by simp
  have nw: "\<forall>i \<in> set js. rou + i < 2 ^ 64" using pre by blast
  define res where "res = \<lparr>cells = r @ drop hi (cells cp), len = hi\<rparr>"
  have "blindPoly q rnd cp rou bo =
          (if cap cp < hi then Inl SliceBoundsOutOfRange
           else (case blindLoop q Q rou js P of Inl e \<Rightarrow> Inl e
                 | Inr r \<Rightarrow> Inr \<lparr>cells = r @ drop hi (cells cp), len = hi\<rparr>))"
    unfolding blindPoly_def Let_def u1 u2 u3 P_def Q_def js_def ..
  with c r have bp: "blindPoly q rnd cp rou bo = Inr res"
    by (simp add: hi_def res_def)
  have co: "coefficients res = r" using lr by (simp add: coefficients_def res_def)
  have cp': "cap res = cap cp" using lr c by (simp add: cap_def res_def hi_def)
  have lres: "len res = hi" by (simp add: res_def)
  have ev: "evalPoly q (coefficients res) x = (evalPoly q P x + evalPoly q Q x * (x ^ rou - 1)) mod q"
    for x
  proof -
    have "(\<Sum>i<length r. r ! i * x ^ i) mod q
            = ((\<Sum>i<length P. P ! i * x ^ i)
                + (\<Sum>i\<leftarrow>js. Q ! i * (x ^ (rou + i) - x ^ i))) mod q"
      by (rule blindLoop_sum [OF r nw])
    also have "(\<Sum>i\<leftarrow>js. Q ! i * (x ^ (rou + i) - x ^ i))
                 = (\<Sum>i<length Q. Q ! i * x ^ i) * (x ^ rou - 1)"
      unfolding js_def lq by (rule blinding_factor)
    finally show ?thesis
      unfolding co evalPoly_def by (rule mod_add_mult_cong)
  qed
  from bp cp' ev lres show ?thesis unfolding hi_def P_def Q_def by blast
qed

lemma blinded_on_roots:
  assumes "e = (p + b * (x ^ rou - 1)) mod q" and "x ^ rou mod q = 1 mod (q::int)"
  shows "e = p mod q"
proof -
  have "(x ^ rou - 1) mod q = 0"
    using assms(2) by (metis cancel_comm_monoid_add_class.diff_cancel mod_0 mod_diff_left_eq)
  then have "(b * (x ^ rou - 1)) mod q = 0"
    by (metis mod_mult_right_eq mult_zero_right mod_0)
  then have "(p + b * (x ^ rou - 1)) mod q = p mod q"
    by (metis add.right_neutral mod_add_right_eq)
  with assms(1) show ?thesis by simp
qed

lemma evalPoly_mod [simp]: "evalPoly q p x mod q = evalPoly q p x"
  by (simp add: evalPoly_def)

lemma andThenStep_Ok:
  "andThenStep m f fs = (fs', Ok y) \<longleftrightarrow> (\<exists>x fs1. m fs = (fs1, Ok x) \<and> f x fs1 = (fs', Ok y))"
  by (auto simp: andThenStep_def split: prod.splits outcome.splits)

lemma orError_Ok: "orError r fs = (fs', Ok x) \<longleftrightarrow> r = Inr x \<and> fs' = fs"
  by (auto simp: orError_def split: sum.splits)

lemma orPanic_Ok: "orPanic r fs = (fs', Ok x) \<longleftrightarrow> r = Inr x \<and> fs' = fs"
  by (auto simp: orPanic_def split: sum.splits)

lemma yield_Ok: "yield x fs = (fs', Ok y) \<longleftrightarrow> y = x \<and> fs' = fs"
  by (auto simp: yield_def)

lemma emits_andThen:
  assumes m: "emits m s1" and f: "\<And>x. emits (f x) s2"
  shows "emits (andThenStep m f) (s1 @ s2)"
  unfolding emits_def
proof (intro allI impI)
  fix fs fs' out
  assume a: "andThenStep m f fs = (fs', out)"
  obtain fs1 o1 where m1: "m fs = (fs1, o1)" by (cases "m fs")
  from m m1 obtain new1 n1 where
    k1: "hashFS fs1 = hashFS fs" "labels fs1 = labels fs" "calls fs1 = calls fs @ new1"
      "map callShape new1 = take n1 s1" "(\<exists>x. o1 = Ok x) \<longrightarrow> length s1 \<le> n1"
    unfolding emits_def by blast
  show "hashFS fs' = hashFS fs \<and> labels fs' = labels fs \<and>
        (\<exists>new n. calls fs' = calls fs @ new \<and> map callShape new = take n (s1 @ s2)
             \<and> ((\<exists>x. out = Ok x) \<longrightarrow> length (s1 @ s2) \<le> n))"
  proof (cases o1)
    case (Ok x)
    with a m1 have fx: "f x fs1 = (fs', out)" by (simp add: andThenStep_def)
    from f [of x] fx obtain new2 n2 where
      k2: "hashFS fs' = hashFS fs1" "labels fs' = labels fs1" "calls fs' = calls fs1 @ new2"
        "map callShape new2 = take n2 s2" "(\<exists>x. out = Ok x) \<longrightarrow> length s2 \<le> n2"
      unfolding emits_def by blast
    from k1 Ok have full: "map callShape new1 = s1" by simp
    have "map callShape (new1 @ new2) = take (length s1 + n2) (s1 @ s2)"
      using full k2(4) by simp
    moreover have "calls fs' = calls fs @ (new1 @ new2)" using k1 k2 by simp
    moreover have "(\<exists>x. out = Ok x) \<longrightarrow> length (s1 @ s2) \<le> length s1 + n2"
      using k2(5) by simp
    ultimately show ?thesis using k1 k2 by metis
  next
    case (Panic p)
    with a m1 have e: "fs' = fs1" "out = Panic p" by (simp_all add: andThenStep_def)
    have "map callShape new1 = take (min n1 (length s1)) (s1 @ s2)"
      using k1(4) by (simp add: min_def)
    with e k1 show ?thesis
      by (intro conjI exI [of _ new1] exI [of _ "min n1 (length s1)"]) simp_all
  next
    case (Error err)
    with a m1 have e: "fs' = fs1" "out = Error err" by (simp_all add: andThenStep_def)
    have "map callShape new1 = take (min n1 (length s1)) (s1 @ s2)"
      using k1(4) by (simp add: min_def)
    with e k1 show ?thesis
      by (intro conjI exI [of _ new1] exI [of _ "min n1 (length s1)"]) simp_all
  qed
qed

lemma emits_orError: "emits (orError r) []"
  by (auto simp: emits_def orError_def split: sum.splits)

lemma emits_orPanic: "emits (orPanic r) []"
  by (auto simp: emits_def orPanic_def split: sum.splits)

lemma emits_yield: "emits (yield x) []"
  by (auto simp: emits_def yield_def)

lemma Bind_calls:
  "Bind l v fs = (fs', out) \<Longrightarrow>
     calls fs' = calls fs @ [CallBind l v] \<and> hashFS fs' = hashFS fs \<and> labels fs' = labels fs"
  by (auto simp: Bind_def Let_def split: option.splits if_splits)

lemma ComputeChallenge_calls:
  "ComputeChallenge h l fs = (fs', out) \<Longrightarrow>
     calls fs' = calls fs @ [CallComputeChallenge l] \<and> hashFS fs' = hashFS fs \<and> labels fs' = labels fs"
  by (auto simp: ComputeChallenge_def Let_def split: option.splits if_splits)

lemma emits_Bind: "emits (Bind l v) [CallBind l []]"
  unfolding emits_def
proof (intro allI impI)
  fix fs fs' and out :: "unit outcome"
  assume "Bind l v fs = (fs', out)"
  from Bind_calls [OF this]
  show "hashFS fs' = hashFS fs \<and> labels fs' = labels fs \<and>
        (\<exists>new n. calls fs' = calls fs @ new \<and> map callShape new = take n [CallBind l []]
             \<and> ((\<exists>x. out = Ok x) \<longrightarrow> length [CallBind l []] \<le> n))"
    by (intro conjI exI [of _ "[CallBind l v]"] exI [of _ 1]) simp_all
qed

lemma emits_ComputeChallenge: "emits (ComputeChallenge h l) [CallComputeChallenge l]"
  unfolding emits_def
proof (intro allI impI)
  fix fs fs' and out :: "bytes outcome"
  assume "ComputeChallenge h l fs = (fs', out)"
  from ComputeChallenge_calls [OF this]
  show "hashFS fs' = hashFS fs \<and> labels fs' = labels fs \<and>
        (\<exists>new n. calls fs' = calls fs @ new \<and> map callShape new = take n [CallComputeChallenge l]
             \<and> ((\<exists>x. out = Ok x) \<longrightarrow> length [CallComputeChallenge l] \<le> n))"
    by (intro conjI exI [of _ "[CallComputeChallenge l]"] exI [of _ 1]) simp_all
qed

lemmas emits_intros =
  emits_andThen emits_orError emits_orPanic emits_yield emits_Bind emits_ComputeChallenge

lemma emits_proveRound1:
  "emits (proveRound1 K rnd sol)
     [CallBind ''gamma'' [], CallBind ''gamma'' [], CallBind ''gamma'' [],
      CallComputeChallenge ''gamma'']"
proof -
  obtain ll lr lo where lro: "computeLRO K sol = (ll, lr, lo)" by (cases "computeLRO K sol")
  have shape: "[CallBind ''gamma'' [], CallBind ''gamma'' [], CallBind ''gamma'' [],
      CallComputeChallenge ''gamma'']
    = [] @ [] @ [] @ [] @ [] @ [CallBind ''gamma'' []] @ [] @ [CallBind ''gamma'' []]
       @ [CallBind ''gamma'' []] @ [CallComputeChallenge ''gamma''] @ []"
    by simp
  show ?thesis
    unfolding proveRound1_def Let_def lro prod.case shape
    by (intro emits_intros)
qed

lemma emits_proveRound2:
  "emits (proveRound2 K rnd w r1) [CallBind ''alpha'' [], CallComputeChallenge ''alpha'']"
proof -
  have shape: "[CallBind ''alpha'' [], CallComputeChallenge ''alpha'']
    = [] @ [] @ [CallBind ''alpha'' []] @ [CallComputeChallenge ''alpha''] @ []"
    by simp
  show ?thesis
    unfolding proveRound2_def Let_def shape
    by (intro emits_intros)
qed

lemma emits_proveRound3:
  "emits (proveRound3 K r2)
     [CallBind ''zeta'' [], CallBind ''zeta'' [], CallBind ''zeta'' [],
      CallComputeChallenge ''zeta'']"
proof -
  obtain a b c where h: "computeH K (constraintsInd r2) (constraintsOrdering r2) (startsAtOne r2) (alpha r2) = (a, b, c)"
    by (cases "computeH K (constraintsInd r2) (constraintsOrdering r2) (startsAtOne r2) (alpha r2)")
  have shape: "[CallBind ''zeta'' [], CallBind ''zeta'' [], CallBind ''zeta'' [],
      CallComputeChallenge ''zeta'']
    = [] @ [] @ [CallBind ''zeta'' []] @ [] @ [CallBind ''zeta'' []]
       @ [CallBind ''zeta'' []] @ [CallComputeChallenge ''zeta''] @ []"
    by simp
  show ?thesis
    unfolding proveRound3_def Let_def h prod.case shape
    by (intro emits_intros)
qed

lemma emits_proveOpenings: "emits (proveOpenings K r1 r2 r3) []"
proof -
  obtain a b where h: "foldH K (chunk1 r3) (chunk2 r3) (chunk3 r3) (digestsH r3) (zeta r3) = (a, b)"
    by (cases "foldH K (chunk1 r3) (chunk2 r3) (chunk3 r3) (digestsH r3) (zeta r3)")
  have shape: "([]::fsCall list) = [] @ [] @ [] @ []" by simp
  show ?thesis
    unfolding proveOpenings_def Let_def h prod.case
    by (subst shape) (intro emits_intros)
qed

lemma emits_Prove:
  "emits
     (andThenStep (orError (Solve K fullWitness)) (\<lambda>solution.
      andThenStep (proveRound1 K rnd solution) (\<lambda>r1.
      andThenStep (proveRound2 K rnd fullWitness r1) (\<lambda>r2.
      andThenStep (proveRound3 K r2) (\<lambda>r3.
        proveOpenings K r1 r2 r3)))))
     canonicalOrder"
proof -
  have shape: "canonicalOrder =
     [] @ [CallBind ''gamma'' [], CallBind ''gamma'' [], CallBind ''gamma'' [],
           CallComputeChallenge ''gamma'']
        @ [CallBind ''alpha'' [], CallComputeChallenge ''alpha'']
        @ [CallBind ''zeta'' [], CallBind ''zeta'' [], CallBind ''zeta'' [],
           CallComputeChallenge ''zeta''] @ []"
    by (simp add: canonicalOrder_def)
  show ?thesis
    unfolding shape
    by (intro emits_andThen emits_orError emits_proveRound1 emits_proveRound2
          emits_proveRound3 emits_proveOpenings)
qed

lemma challengeOrder_gamma [simp]: "challengeOrder [''gamma'', ''alpha'', ''zeta''] ''gamma'' = Some 0"
  by simp

lemma challengeOrder_alpha [simp]: "challengeOrder [''gamma'', ''alpha'', ''zeta''] ''alpha'' = Some 1"
  by simp

lemma challengeOrder_zeta [simp]: "challengeOrder [''gamma'', ''alpha'', ''zeta''] ''zeta'' = Some 2"
  by simp

lemma proveRound1_Ok:
  assumes "proveRound1 K rnd sol (NewTranscript SHA256 [''gamma'', ''alpha'', ''zeta'']) = (fs', Ok r1)"
  shows "\<exists>l0 l1 l2.
      computeLRO K sol = (wiresL r1, wiresR r1, wiresO r1)
    \<and> blindPoly (FieldOrder K) rnd (canonicalWire K (wiresL r1)) (Cardinality K) 1 = Inr (bcl r1)
    \<and> blindPoly (FieldOrder K) (\<lambda>i. rnd (i + 2)) (canonicalWire K (wiresR r1)) (Cardinality K) 1 = Inr (bcr r1)
    \<and> blindPoly (FieldOrder K) (\<lambda>i. rnd (i + 4)) (canonicalWire K (wiresO r1)) (Cardinality K) 1 = Inr (bco r1)
    \<and> Commit K (coefficients (bcl r1)) = Inr l0
    \<and> Commit K (coefficients (bcr r1)) = Inr l1
    \<and> Commit K (coefficients (bco r1)) = Inr l2
    \<and> digestsLRO r1 = [l0, l1, l2]
    \<and> gamma r1 = SetBytes K (hashFn K SHA256 (bytesOf ''gamma'' @ Marshal K l0 @ Marshal K l1 @ Marshal K l2))
    \<and> fs' = \<lparr>hashFS = SHA256, labels = [''gamma'', ''alpha'', ''zeta''],
              bindings = [Marshal K l0 @ Marshal K l1 @ Marshal K l2, [], []],
              challenges = [hashFn K SHA256 (bytesOf ''gamma'' @ Marshal K l0 @ Marshal K l1 @ Marshal K l2), [], []],
              isComputed = [True, False, False],
              calls = [CallBind ''gamma'' (Marshal K l0), CallBind ''gamma'' (Marshal K l1),
                       CallBind ''gamma'' (Marshal K l2), CallComputeChallenge ''gamma'']\<rparr>"
proof -
  obtain ll lr lo where lro: "computeLRO K sol = (ll, lr, lo)" by (cases "computeLRO K sol")
  from assms show ?thesis
    unfolding proveRound1_def Let_def lro prod.case
    by (auto simp: andThenStep_Ok orError_Ok orPanic_Ok yield_Ok Bind_def ComputeChallenge_def
          NewTranscript_def Let_def numeral_3_eq_3)
qed

lemma proveRound2_Ok:
  assumes "proveRound2 K rnd w r1
             \<lparr>hashFS = SHA256, labels = [''gamma'', ''alpha'', ''zeta''],
              bindings = [b0, [], []], challenges = [g, [], []],
              isComputed = [True, False, False], calls = cs\<rparr> = (fs', Ok r2)"
  shows "blindPoly (FieldOrder K) (\<lambda>i. rnd (i + 6))
             (toCanonical K (computeZ K (wiresL r1) (wiresR r1) (wiresO r1) (gamma r1)))
             (Cardinality K) 2 = Inr (bz r2)
    \<and> Commit K (coefficients (bz r2)) = Inr (digestZ r2)
    \<and> alpha r2 = SetBytes K (hashFn K SHA256 (bytesOf ''alpha'' @ g @ Marshal K (digestZ r2)))
    \<and> fs' = \<lparr>hashFS = SHA256, labels = [''gamma'', ''alpha'', ''zeta''],
              bindings = [b0, Marshal K (digestZ r2), []],
              challenges = [g, hashFn K SHA256 (bytesOf ''alpha'' @ g @ Marshal K (digestZ r2)), []],
              isComputed = [True, True, False],
              calls = cs @ [CallBind ''alpha'' (Marshal K (digestZ r2)),
                            CallComputeChallenge ''alpha'']\<rparr>"
  using assms unfolding proveRound2_def Let_def
  by (auto simp: andThenStep_Ok orError_Ok orPanic_Ok yield_Ok Bind_def ComputeChallenge_def Let_def)

lemma proveRound3_Ok:
  assumes "proveRound3 K r2
             \<lparr>hashFS = SHA256, labels = [''gamma'', ''alpha'', ''zeta''],
              bindings = [b0, b1, []], challenges = [g, a, []],
              isComputed = [True, True, False], calls = cs\<rparr> = (fs', Ok r3)"
  shows "\<exists>d0 d1 d2.
      digestsH r3 = [d0, d1, d2]
    \<and> computeH K (constraintsInd r2) (constraintsOrdering r2) (startsAtOne r2) (alpha r2)
        = (chunk1 r3, chunk2 r3, chunk3 r3)
    \<and> Commit K (chunk1 r3) = Inr d0 \<and> Commit K (chunk2 r3) = Inr d1 \<and> Commit K (chunk3 r3) = Inr d2
    \<and> zeta r3 = SetBytes K (hashFn K SHA256 (bytesOf ''zeta'' @ a @ Marshal K d0 @ Marshal K d1 @ Marshal K d2))
    \<and> fs' = \<lparr>hashFS = SHA256, labels = [''gamma'', ''alpha'', ''zeta''],
              bindings = [b0, b1, Marshal K d0 @ Marshal K d1 @ Marshal K d2],
              challenges = [g, a, hashFn K SHA256 (bytesOf ''zeta'' @ a @ Marshal K d0 @ Marshal K d1 @ Marshal K d2)],
              isComputed = [True, True, True],
              calls = cs @ [CallBind ''zeta'' (Marshal K d0), CallBind ''zeta'' (Marshal K d1),
                            CallBind ''zeta'' (Marshal K d2), CallComputeChallenge ''zeta'']\<rparr>"
proof -
  obtain x y z where h: "computeH K (constraintsInd r2) (constraintsOrdering r2) (startsAtOne r2) (alpha r2) = (x, y, z)"
    by (cases "computeH K (constraintsInd r2) (constraintsOrdering r2) (startsAtOne r2) (alpha r2)")
  from assms show ?thesis
    unfolding proveRound3_def Let_def h prod.case
    by (auto simp: andThenStep_Ok orError_Ok orPanic_Ok yield_Ok Bind_def ComputeChallenge_def Let_def)
qed

lemma proveOpenings_Ok:
  assumes "proveOpenings K r1 r2 r3 fs = (fs', Ok pf)"
  shows "fs' = fs \<and> LRO pf = digestsLRO r1 \<and> Z pf = digestZ r2 \<and> H pf = digestsH r3"
proof -
  obtain a b where h: "foldH K (chunk1 r3) (chunk2 r3) (chunk3 r3) (digestsH r3) (zeta r3) = (a, b)"
    by (cases "foldH K (chunk1 r3) (chunk2 r3) (chunk3 r3) (digestsH r3) (zeta r3)")
  from assms show ?thesis
    unfolding proveOpenings_def Let_def h prod.case
    by (auto simp: andThenStep_Ok orError_Ok yield_Ok)
qed

lemma Prove_Ok:
  fixes K :: "'d Kernels"
  assumes "Prove K rnd w = (fs, Ok pf)"
  obtains sol and r1 :: "'d round1" and r2 :: "'d round2" and r3 :: "'d round3"
    and l0 l1 l2 d0 d1 d2 where
    "Solve K w = Inr sol"
    "computeLRO K sol = (wiresL r1, wiresR r1, wiresO r1)"
    "blindPoly (FieldOrder K) rnd (canonicalWire K (wiresL r1)) (Cardinality K) 1 = Inr (bcl r1)"
    "blindPoly (FieldOrder K) (\<lambda>i. rnd (i + 2)) (canonicalWire K (wiresR r1)) (Cardinality K) 1 = Inr (bcr r1)"
    "blindPoly (FieldOrder K) (\<lambda>i. rnd (i + 4)) (canonicalWire K (wiresO r1)) (Cardinality K) 1 = Inr (bco r1)"
    "Commit K (coefficients (bcl r1)) = Inr l0"
    "Commit K (coefficients (bcr r1)) = Inr l1"
    "Commit K (coefficients (bco r1)) = Inr l2"
    "LRO pf = [l0, l1, l2]"
    "gamma r1 = SetBytes K (challenges fs ! 0)"
    "blindPoly (FieldOrder K) (\<lambda>i. rnd (i + 6))
         (toCanonical K (computeZ K (wiresL r1) (wiresR r1) (wiresO r1) (gamma r1)))
         (Cardinality K) 2 = Inr (bz r2)"
    "Commit K (coefficients (bz r2)) = Inr (Z pf)"
    "alpha r2 = SetBytes K (challenges fs ! 1)"
    "Commit K (chunk1 r3) = Inr d0"
    "Commit K (chunk2 r3) = Inr d1"
    "Commit K (chunk3 r3) = Inr d2"
    "H pf = [d0, d1, d2]"
    "zeta r3 = SetBytes K (challenges fs ! 2)"
    "fs = \<lparr>hashFS = SHA256, labels = [''gamma'', ''alpha'', ''zeta''],
             bindings = [Marshal K l0 @ Marshal K l1 @ Marshal K l2, Marshal K (Z pf),
                         Marshal K d0 @ Marshal K d1 @ Marshal K d2],
             challenges =
               [hashFn K SHA256 (bytesOf ''gamma'' @ Marshal K l0 @ Marshal K l1 @ Marshal K l2),
                hashFn K SHA256 (bytesOf ''alpha''
                   @ hashFn K SHA256 (bytesOf ''gamma'' @ Marshal K l0 @ Marshal K l1 @ Marshal K l2)
                   @ Marshal K (Z pf)),
                hashFn K SHA256 (bytesOf ''zeta''
                   @ hashFn K SHA256 (bytesOf ''alpha''
                       @ hashFn K SHA256 (bytesOf ''gamma'' @ Marshal K l0 @ Marshal K l1 @ Marshal K l2)
                       @ Marshal K (Z pf))
                   @ Marshal K d0 @ Marshal K d1 @ Marshal K d2)],
             isComputed = [True, True, True],
             calls = [CallBind ''gamma'' (Marshal K l0), CallBind ''gamma'' (Marshal K l1),
                      CallBind ''gamma'' (Marshal K l2), CallComputeChallenge ''gamma'',
                      CallBind ''alpha'' (Marshal K (Z pf)), CallComputeChallenge ''alpha'',
                      CallBind ''zeta'' (Marshal K d0), CallBind ''zeta'' (Marshal K d1),
                      CallBind ''zeta'' (Marshal K d2), CallComputeChallenge ''zeta'']\<rparr>"
proof -
  let ?fs0 = "NewTranscript SHA256 [''gamma'', ''alpha'', ''zeta'']"
  from assms obtain sol r1 fs1 r2 fs2 r3 fs3 where
    s: "Solve K w = Inr sol" and
    p1: "proveRound1 K rnd sol ?fs0 = (fs1, Ok r1)" and
    p2: "proveRound2 K rnd w r1 fs1 = (fs2, Ok r2)" and
    p3: "proveRound3 K r2 fs2 = (fs3, Ok r3)" and
    p4: "proveOpenings K r1 r2 r3 fs3 = (fs, Ok pf)"
    unfolding Prove_def by (auto simp: andThenStep_Ok orError_Ok)
  from proveRound1_Ok [OF p1] obtain l0 l1 l2 where
    a: "computeLRO K sol = (wiresL r1, wiresR r1, wiresO r1)"
      "blindPoly (FieldOrder K) rnd (canonicalWire K (wiresL r1)) (Cardinality K) 1 = Inr (bcl r1)"
      "blindPoly (FieldOrder K) (\<lambda>i. rnd (i + 2)) (canonicalWire K (wiresR r1)) (Cardinality K) 1 = Inr (bcr r1)"
      "blindPoly (FieldOrder K) (\<lambda>i. rnd (i + 4)) (canonicalWire K (wiresO r1)) (Cardinality K) 1 = Inr (bco r1)"
      "Commit K (coefficients (bcl r1)) = Inr l0"
      "Commit K (coefficients (bcr r1)) = Inr l1"
      "Commit K (coefficients (bco r1)) = Inr l2"
      "digestsLRO r1 = [l0, l1, l2]"
      "gamma r1 = SetBytes K (hashFn K SHA256 (bytesOf ''gamma'' @ Marshal K l0 @ Marshal K l1 @ Marshal K l2))"
    and f1: "fs1 = \<lparr>hashFS = SHA256, labels = [''gamma'', ''alpha'', ''zeta''],
              bindings = [Marshal K l0 @ Marshal K l1 @ Marshal K l2, [], []],
              challenges = [hashFn K SHA256 (bytesOf ''gamma'' @ Marshal K l0 @ Marshal K l1 @ Marshal K l2), [], []],
              isComputed = [True, False, False],
              calls = [CallBind ''gamma'' (Marshal K l0), CallBind ''gamma'' (Marshal K l1),
                       CallBind ''gamma'' (Marshal K l2), CallComputeChallenge ''gamma'']\<rparr>"
    by blast
  note b = proveRound2_Ok [OF p2 [unfolded f1]]
  from b have f2: "fs2 = \<lparr>hashFS = SHA256, labels = [''gamma'', ''alpha'', ''zeta''],
              bindings = [Marshal K l0 @ Marshal K l1 @ Marshal K l2, Marshal K (digestZ r2), []],
              challenges = [hashFn K SHA256 (bytesOf ''gamma'' @ Marshal K l0 @ Marshal K l1 @ Marshal K l2),
                hashFn K SHA256 (bytesOf ''alpha''
                  @ hashFn K SHA256 (bytesOf ''gamma'' @ Marshal K l0 @ Marshal K l1 @ Marshal K l2)
                  @ Marshal K (digestZ r2)), []],
              isComputed = [True, True, False],
              calls = [CallBind ''gamma'' (Marshal K l0), CallBind ''gamma'' (Marshal K l1),
                       CallBind ''gamma'' (Marshal K l2), CallComputeChallenge ''gamma'']
                     @ [CallBind ''alpha'' (Marshal K (digestZ r2)),
                            CallComputeChallenge ''alpha'']\<rparr>"
    by blast
  from proveRound3_Ok [OF p3 [unfolded f2]] obtain d0 d1 d2 where
    c: "digestsH r3 = [d0, d1, d2]"
      "Commit K (chunk1 r3) = Inr d0" "Commit K (chunk2 r3) = Inr d1" "Commit K (chunk3 r3) = Inr d2"
      "zeta r3 = SetBytes K (hashFn K SHA256 (bytesOf ''zeta''
          @ hashFn K SHA256 (bytesOf ''alpha''
              @ hashFn K SHA256 (bytesOf ''gamma'' @ Marshal K l0 @ Marshal K l1 @ Marshal K l2)
              @ Marshal K (digestZ r2))
          @ Marshal K d0 @ Marshal K d1 @ Marshal K d2))"
    and f3: "fs3 = \<lparr>hashFS = SHA256, labels = [''gamma'', ''alpha'', ''zeta''],
              bindings = [Marshal K l0 @ Marshal K l1 @ Marshal K l2, Marshal K (digestZ r2),
                          Marshal K d0 @ Marshal K d1 @ Marshal K d2],
              challenges = [hashFn K SHA256 (bytesOf ''gamma'' @ Marshal K l0 @ Marshal K l1 @ Marshal K l2),
                hashFn K SHA256 (bytesOf ''alpha''
                  @ hashFn K SHA256 (bytesOf ''gamma'' @ Marshal K l0 @ Marshal K l1 @ Marshal K l2)
                  @ Marshal K (digestZ r2)),
                hashFn K SHA256 (bytesOf ''zeta''
                  @ hashFn K SHA256 (bytesOf ''alpha''
                      @ hashFn K SHA256 (bytesOf ''gamma'' @ Marshal K l0 @ Marshal K l1 @ Marshal K l2)
                      @ Marshal K (digestZ r2))
                  @ Marshal K d0 @ Marshal K d1 @ Marshal K d2)],
              isComputed = [True, True, True],
              calls = ([CallBind ''gamma'' (Marshal K l0), CallBind ''gamma'' (Marshal K l1),
                       CallBind ''gamma'' (Marshal K l2), CallComputeChallenge ''gamma'']
                     @ [CallBind ''alpha'' (Marshal K (digestZ r2)),
                            CallComputeChallenge ''alpha''])
                     @ [CallBind ''zeta'' (Marshal K d0), CallBind ''zeta'' (Marshal K d1),
                            CallBind ''zeta'' (Marshal K d2), CallComputeChallenge ''zeta'']\<rparr>"
    by blast
  from proveOpenings_Ok [OF p4] have
    d: "fs = fs3" "LRO pf = digestsLRO r1" "Z pf = digestZ r2" "H pf = digestsH r3"
    by simp_all
  have e: "fs = \<lparr>hashFS = SHA256, labels = [''gamma'', ''alpha'', ''zeta''],
             bindings = [Marshal K l0 @ Marshal K l1 @ Marshal K l2, Marshal K (Z pf),
                         Marshal K d0 @ Marshal K d1 @ Marshal K d2],
             challenges =
               [hashFn K SHA256 (bytesOf ''gamma'' @ Marshal K l0 @ Marshal K l1 @ Marshal K l2),
                hashFn K SHA256 (bytesOf ''alpha''
                   @ hashFn K SHA256 (bytesOf ''gamma'' @ Marshal K l0 @ Marshal K l1 @ Marshal K l2)
                   @ Marshal K (Z pf)),
                hashFn K SHA256 (bytesOf ''zeta''
                   @ hashFn K SHA256 (bytesOf ''alpha''
                       @ hashFn K SHA256 (bytesOf ''gamma'' @ Marshal K l0 @ Marshal K l1 @ Marshal K l2)
                       @ Marshal K (Z pf))
                   @ Marshal K d0 @ Marshal K d1 @ Marshal K d2)],
             isComputed = [True, True, True],
             calls = [CallBind ''gamma'' (Marshal K l0), CallBind ''gamma'' (Marshal K l1),
                      CallBind ''gamma'' (Marshal K l2), CallComputeChallenge ''gamma'',
                      CallBind ''alpha'' (Marshal K (Z pf)), CallComputeChallenge ''alpha'',
                      CallBind ''zeta'' (Marshal K d0), CallBind ''zeta'' (Marshal K d1),
                      CallBind ''zeta'' (Marshal K d2), CallComputeChallenge ''zeta'']\<rparr>"
    unfolding d f3 by simp
  have g: "gamma r1 = SetBytes K (challenges fs ! 0)" using a(9) by (subst e) simp
  have al: "alpha r2 = SetBytes K (challenges fs ! 1)" using b d(3) by (subst e) simp
  have z: "zeta r3 = SetBytes K (challenges fs ! 2)" using c(5) d(3) by (subst e) simp
  have bz: "blindPoly (FieldOrder K) (\<lambda>i. rnd (i + 6))
         (toCanonical K (computeZ K (wiresL r1) (wiresR r1) (wiresO r1) (gamma r1)))
         (Cardinality K) 2 = Inr (bz r2)" and cz: "Commit K (coefficients (bz r2)) = Inr (Z pf)"
    using b d(3) by simp_all
  have lro: "LRO pf = [l0, l1, l2]" and hh: "H pf = [d0, d1, d2]"
    using a(8) c(1) d by simp_all
  show ?thesis
    by (rule that [OF s a(1-7) lro g bz cz al c(2-4) hh z e])
qed

lemma evalPoly_Nil [simp]: "evalPoly q [] x = 0"
  by (simp add: evalPoly_def)

lemma evalPoly_Cons: "evalPoly q (a # p) x = (a + x * evalPoly q p x) mod q"
proof -
  have "(\<Sum>i<Suc (length p). (a # p) ! i * x ^ i) = a + (\<Sum>i<length p. p ! i * x ^ Suc i)"
    by (subst sum.lessThan_Suc_shift) simp
  also have "(\<Sum>i<length p. p ! i * x ^ Suc i) = x * (\<Sum>i<length p. p ! i * x ^ i)"
    by (simp add: sum_distrib_left mult.assoc mult.left_commute)
  finally have "(\<Sum>i<length (a # p). (a # p) ! i * x ^ i) = a + x * (\<Sum>i<length p. p ! i * x ^ i)"
    by simp
  then have "evalPoly q (a # p) x = (a + x * (\<Sum>i<length p. p ! i * x ^ i)) mod q"
    unfolding evalPoly_def by (rule arg_cong)
  also have "\<dots> = (a + x * evalPoly q p x) mod q"
    unfolding evalPoly_def by (metis mod_add_right_eq mod_mult_right_eq)
  finally show ?thesis .
qed

lemma example_wires:
  "canonicalWire exampleKernels [1, 2, 3, 4] = \<lparr>cells = [4, 3, 2, 1, 0, 0], len = 4\<rparr>"
  "canonicalWire exampleKernels [4, 3, 2, 1] = \<lparr>cells = [1, 2, 3, 4, 0, 0], len = 4\<rparr>"
  "canonicalWire exampleKernels [1, 4, 9, 3] = \<lparr>cells = [3, 9, 4, 1, 0, 0], len = 4\<rparr>"
  by (simp_all add: canonicalWire_def toCanonical_def inPlace_def copyInto_def makePoly_def
        coefficients_def exampleKernels_def numeral_2_eq_2 numeral_3_eq_3)

lemma example_blinded:
  "blindPoly 13 exampleRnd \<lparr>cells = [4, 3, 2, 1, 0, 0], len = 4\<rparr> 4 1
     = Inr \<lparr>cells = [1, 12, 2, 1, 3, 4], len = 6\<rparr>"
  "blindPoly 13 (\<lambda>i. exampleRnd (i + 2)) \<lparr>cells = [1, 2, 3, 4, 0, 0], len = 4\<rparr> 4 1
     = Inr \<lparr>cells = [0, 10, 3, 4, 1, 5], len = 6\<rparr>"
  "blindPoly 13 (\<lambda>i. exampleRnd (i + 4)) \<lparr>cells = [3, 9, 4, 1, 0, 0], len = 4\<rparr> 4 1
     = Inr \<lparr>cells = [7, 7, 4, 1, 9, 2], len = 6\<rparr>"
  "blindPoly 13 (\<lambda>i. exampleRnd (i + 6)) \<lparr>cells = [2, 1, 0, 12, 0, 0, 0], len = 4\<rparr> 4 2
     = Inr \<lparr>cells = [9, 9, 10, 12, 6, 5, 3], len = 7\<rparr>"
  by (simp_all add: blindPoly_def cap_def u64_def Let_def upt_rec exampleRnd_def)

lemma example_kernels [simp]:
  "FieldOrder exampleKernels = 13" "Cardinality exampleKernels = 4" "Generator exampleKernels = 5"
  "Solve exampleKernels w = (if w = [] then Inl (External ''no witness'') else Inr w)"
  "computeLRO exampleKernels s = (s, rev s, map (\<lambda>x. (x * x) mod 13) s)"
  "Commit exampleKernels p = Inr (nat (evalPoly 13 p 2))"
  "Marshal exampleKernels d = [d]"
  "hashFn exampleKernels h bs = [sum_list bs mod 256]"
  "SetBytes exampleKernels bs = int (sum_list bs) mod 13"
  by (simp_all add: exampleKernels_def)

lemmas step_simps =
  andThenStep_def orError_def orPanic_def yield_def Bind_def ComputeChallenge_def Let_def
  coefficients_def evalPoly_Cons bytesOf_def

lemma example_lro:
  "computeLRO exampleKernels exampleWitness = ([1, 2, 3, 4], [4, 3, 2, 1], [1, 4, 9, 3])"
  by (simp add: exampleWitness_def)

lemma example_round1:
  "proveRound1 exampleKernels exampleRnd exampleWitness
     (NewTranscript SHA256 [''gamma'', ''alpha'', ''zeta''])
   = (\<lparr>hashFS = SHA256, labels = [''gamma'', ''alpha'', ''zeta''],
       bindings = [[9, 6, 6], [], []], challenges = [[24], [], []],
       isComputed = [True, False, False],
       calls = [CallBind ''gamma'' [9], CallBind ''gamma'' [6], CallBind ''gamma'' [6],
                CallComputeChallenge ''gamma'']\<rparr>,
      Ok \<lparr>wiresL = [1, 2, 3, 4], wiresR = [4, 3, 2, 1], wiresO = [1, 4, 9, 3],
          bcl = \<lparr>cells = [1, 12, 2, 1, 3, 4], len = 6\<rparr>,
          bcr = \<lparr>cells = [0, 10, 3, 4, 1, 5], len = 6\<rparr>,
          bco = \<lparr>cells = [7, 7, 4, 1, 9, 2], len = 6\<rparr>,
          digestsLRO = [9, 6, 6], gamma = 11\<rparr>)"
  apply (simp only: proveRound1_def example_lro prod.case Let_def example_kernels(1,2)
      example_wires example_blinded)
  apply (simp add: step_simps NewTranscript_def)
  done

lemma example_z:
  "toCanonical exampleKernels (computeZ exampleKernels [1, 2, 3, 4] [4, 3, 2, 1] [1, 4, 9, 3] 11)
     = \<lparr>cells = [2, 1, 0, 12, 0, 0, 0], len = 4\<rparr>"
  by (simp add: toCanonical_def computeZ_def inPlace_def copyInto_def makePoly_def
        coefficients_def exampleKernels_def numeral_2_eq_2 numeral_3_eq_3)

lemma example_round2:
  "proveRound2 exampleKernels exampleRnd exampleWitness
     \<lparr>wiresL = [1, 2, 3, 4], wiresR = [4, 3, 2, 1], wiresO = [1, 4, 9, 3],
      bcl = \<lparr>cells = [1, 12, 2, 1, 3, 4], len = 6\<rparr>,
      bcr = \<lparr>cells = [0, 10, 3, 4, 1, 5], len = 6\<rparr>,
      bco = \<lparr>cells = [7, 7, 4, 1, 9, 2], len = 6\<rparr>,
      digestsLRO = [9, 6, 6], gamma = 11\<rparr>
     \<lparr>hashFS = SHA256, labels = [''gamma'', ''alpha'', ''zeta''],
       bindings = [[9, 6, 6], [], []], challenges = [[24], [], []],
       isComputed = [True, False, False],
       calls = [CallBind ''gamma'' [9], CallBind ''gamma'' [6], CallBind ''gamma'' [6],
                CallComputeChallenge ''gamma'']\<rparr>
   = (\<lparr>hashFS = SHA256, labels = [''gamma'', ''alpha'', ''zeta''],
       bindings = [[9, 6, 6], [0], []], challenges = [[24], [30], []],
       isComputed = [True, True, False],
       calls = [CallBind ''gamma'' [9], CallBind ''gamma'' [6], CallBind ''gamma'' [6],
                CallComputeChallenge ''gamma'', CallBind ''alpha'' [0],
                CallComputeChallenge ''alpha'']\<rparr>,
      Ok \<lparr>bz = \<lparr>cells = [9, 9, 10, 12, 6, 5, 3], len = 7\<rparr>, digestZ = 0,
          constraintsInd = [1, 12, 2, 1, 3, 4],
          constraintsOrdering = [9, 9, 10, 12, 6, 5, 3],
          startsAtOne = [9, 9, 10, 12, 6, 5, 3], alpha = 4\<rparr>)"
  apply (simp only: proveRound2_def Let_def example_kernels(1,2) round1.simps example_z example_blinded)
  apply (simp add: step_simps exampleKernels_def)
  done

lemma example_round3:
  "proveRound3 exampleKernels
     \<lparr>bz = \<lparr>cells = [9, 9, 10, 12, 6, 5, 3], len = 7\<rparr>, digestZ = 0,
      constraintsInd = [1, 12, 2, 1, 3, 4],
      constraintsOrdering = [9, 9, 10, 12, 6, 5, 3],
      startsAtOne = [9, 9, 10, 12, 6, 5, 3], alpha = 4\<rparr>
     \<lparr>hashFS = SHA256, labels = [''gamma'', ''alpha'', ''zeta''],
       bindings = [[9, 6, 6], [0], []], challenges = [[24], [30], []],
       isComputed = [True, True, False],
       calls = [CallBind ''gamma'' [9], CallBind ''gamma'' [6], CallBind ''gamma'' [6],
                CallComputeChallenge ''gamma'', CallBind ''alpha'' [0],
                CallComputeChallenge ''alpha'']\<rparr>
   = (\<lparr>hashFS = SHA256, labels = [''gamma'', ''alpha'', ''zeta''],
       bindings = [[9, 6, 6], [0], [9, 0, 0]], challenges = [[24], [30], [219]],
       isComputed = [True, True, True],
       calls = [CallBind ''gamma'' [9], CallBind ''gamma'' [6], CallBind ''gamma'' [6],
                CallComputeChallenge ''gamma'', CallBind ''alpha'' [0],
                CallComputeChallenge ''alpha'', CallBind ''zeta'' [9], CallBind ''zeta'' [0],
                CallBind ''zeta'' [0], CallComputeChallenge ''zeta'']\<rparr>,
      Ok \<lparr>chunk1 = [1, 12, 2, 1, 3, 4], chunk2 = [9, 9, 10, 12, 6, 5, 3],
          chunk3 = [9, 9, 10, 12, 6, 5, 3], digestsH = [9, 0, 0], zeta = 11\<rparr>)"
  by (simp add: proveRound3_def step_simps exampleKernels_def)

lemma example_kernels2 [simp]:
  "Open exampleKernels p x = Inr \<lparr>OpeningH = 0, ClaimedValue = evalPoly 13 p x\<rparr>"
  "computeLinearizedPolynomial exampleKernels l r o' a g z zu p = p"
  "foldH exampleKernels h1 h2 h3 ds z = (h1, 0)"
  "BatchOpenSinglePoint exampleKernels ps ds x
     = Inr \<lparr>BatchH = 0, ClaimedValues = map (\<lambda>p. evalPoly 13 p x) ps\<rparr>"
  "CS1 exampleKernels = []" "CS2 exampleKernels = []" "VkS exampleKernels = [0, 0]"
  by (simp_all add: exampleKernels_def)

lemma example_openings:
  "proveOpenings exampleKernels
     \<lparr>wiresL = [1, 2, 3, 4], wiresR = [4, 3, 2, 1], wiresO = [1, 4, 9, 3],
      bcl = \<lparr>cells = [1, 12, 2, 1, 3, 4], len = 6\<rparr>,
      bcr = \<lparr>cells = [0, 10, 3, 4, 1, 5], len = 6\<rparr>,
      bco = \<lparr>cells = [7, 7, 4, 1, 9, 2], len = 6\<rparr>,
      digestsLRO = [9, 6, 6], gamma = 11\<rparr>
     \<lparr>bz = \<lparr>cells = [9, 9, 10, 12, 6, 5, 3], len = 7\<rparr>, digestZ = 0,
      constraintsInd = [1, 12, 2, 1, 3, 4],
      constraintsOrdering = [9, 9, 10, 12, 6, 5, 3],
      startsAtOne = [9, 9, 10, 12, 6, 5, 3], alpha = 4\<rparr>
     \<lparr>chunk1 = [1, 12, 2, 1, 3, 4], chunk2 = [9, 9, 10, 12, 6, 5, 3],
      chunk3 = [9, 9, 10, 12, 6, 5, 3], digestsH = [9, 0, 0], zeta = 11\<rparr>
     fs
   = (fs, Ok \<lparr>LRO = [9, 6, 6], Z = 0, H = [9, 0, 0],
               BatchedProof = \<lparr>BatchH = 0, ClaimedValues = [1, 11, 1, 11, 3, 0, 0]\<rparr>,
               ZShiftedOpening = \<lparr>OpeningH = 0, ClaimedValue = 9\<rparr>\<rparr>)"
  apply (simp only: proveOpenings_def Let_def round1.simps round2.simps round3.simps example_kernels example_kernels2 coefficients_def)
  apply (simp only: andThenStep_def orError_def yield_def sum.case prod.case outcome.case take_Cons_numeral take.simps list.size)
  apply (simp add: evalPoly_Cons)
  done

lemma example_solve: "Solve exampleKernels exampleWitness = Inr exampleWitness"
  by (simp add: exampleWitness_def)

lemma Prove_example:
  "Prove exampleKernels exampleRnd exampleWitness
   = (\<lparr>hashFS = SHA256, labels = [''gamma'', ''alpha'', ''zeta''],
       bindings = [[9, 6, 6], [0], [9, 0, 0]], challenges = [[24], [30], [219]],
       isComputed = [True, True, True],
       calls = [CallBind ''gamma'' [9], CallBind ''gamma'' [6], CallBind ''gamma'' [6],
                CallComputeChallenge ''gamma'', CallBind ''alpha'' [0],
                CallComputeChallenge ''alpha'', CallBind ''zeta'' [9], CallBind ''zeta'' [0],
                CallBind ''zeta'' [0], CallComputeChallenge ''zeta'']\<rparr>,
      Ok \<lparr>LRO = [9, 6, 6], Z = 0, H = [9, 0, 0],
          BatchedProof = \<lparr>BatchH = 0, ClaimedValues = [1, 11, 1, 11, 3, 0, 0]\<rparr>,
          ZShiftedOpening = \<lparr>OpeningH = 0, ClaimedValue = 9\<rparr>\<rparr>)"
  by (simp only: Prove_def andThenStep_def orError_def example_solve example_round1
        example_round2 example_round3 example_openings sum.case prod.case outcome.case)

lemma evalPoly_zeros: "evalPoly q (replicate k 0) x = 0"
  by (induction k) (simp_all add: evalPoly_Cons)

lemma evalPoly_append_zeros: "evalPoly q (p @ replicate k 0) x = evalPoly q p x"
proof (induction p)
  case Nil
  then show ?case by (simp add: evalPoly_zeros)
next
  case (Cons a p)
  then show ?case by (simp add: evalPoly_Cons)
qed

text \<open>A slice of length \<open>n\<close> whose \<open>k\<close> spare cells are zero.\<close>

lemma makePoly_spare:
  "len (makePoly n (n + k)) = n \<and> length (cells (makePoly n (n + k))) = n + k
     \<and> drop n (cells (makePoly n (n + k))) = replicate k 0"
  by (simp add: makePoly_def)

lemma copyInto_spare:
  assumes "len p = n \<and> length (cells p) = n + k \<and> drop n (cells p) = replicate k 0"
  shows "len (copyInto p src) = n \<and> length (cells (copyInto p src)) = n + k
     \<and> drop n (cells (copyInto p src)) = replicate k 0"
proof -
  let ?m = "min n (length src)"
  have c: "cells (copyInto p src) = take ?m src @ drop ?m (cells p)"
    and l: "len (copyInto p src) = n"
    using assms by (simp_all add: copyInto_def Let_def)
  have lt: "length (take ?m src) = ?m" by simp
  have "drop n (take ?m src @ drop ?m (cells p)) = drop (n - ?m) (drop ?m (cells p))"
    using lt by simp
  also have "\<dots> = drop n (cells p)" by simp
  finally have d: "drop n (cells (copyInto p src)) = replicate k 0"
    using assms c by simp
  have "length (cells (copyInto p src)) = n + k"
    unfolding c using assms by auto
  with l d show ?thesis by simp
qed

lemma inPlace_spare:
  assumes "len p = n \<and> length (cells p) = n + k \<and> drop n (cells p) = replicate k 0"
  shows "len (inPlace f p) = n \<and> length (cells (inPlace f p)) = n + k
     \<and> drop n (cells (inPlace f p)) = replicate k 0"
proof -
  let ?a = "take n (f (coefficients p) @ replicate n 0)"
  have la: "length ?a = n" by simp
  have c: "cells (inPlace f p) = ?a @ drop n (cells p)" and l: "len (inPlace f p) = n"
    using assms by (simp_all add: inPlace_def)
  from la have "drop n (?a @ drop n (cells p)) = drop n (cells p)" by simp
  with c assms have d: "drop n (cells (inPlace f p)) = replicate k 0" by simp
  have "length (cells (inPlace f p)) = n + k" unfolding c using assms la by simp
  with l d show ?thesis by simp
qed

lemma canonicalWire_spare:
  "len (canonicalWire K l) = Cardinality K
     \<and> length (cells (canonicalWire K l)) = Cardinality K + 2
     \<and> drop (Cardinality K) (cells (canonicalWire K l)) = replicate 2 0"
  unfolding canonicalWire_def toCanonical_def
  by (intro inPlace_spare copyInto_spare makePoly_spare)

lemma computeZ_spare:
  "len (toCanonical K (computeZ K l r o' g)) = Cardinality K
     \<and> length (cells (toCanonical K (computeZ K l r o' g))) = Cardinality K + 3
     \<and> drop (Cardinality K) (cells (toCanonical K (computeZ K l r o' g))) = replicate 3 0"
  unfolding computeZ_def toCanonical_def
  by (intro inPlace_spare copyInto_spare makePoly_spare)

lemma spare_evalPoly:
  assumes "len p = n \<and> length (cells p) = n + k \<and> drop n (cells p) = replicate k 0"
  shows "evalPoly q (take (n + k) (cells p)) x = evalPoly q (coefficients p) x"
proof -
  have "cells p = take n (cells p) @ drop n (cells p)" by simp
  with assms have "cells p = coefficients p @ replicate k 0"
    by (simp add: coefficients_def)
  moreover have "take (n + k) (cells p) = cells p" using assms by simp
  ultimately show ?thesis by (metis evalPoly_append_zeros)
qed

lemma blindPoly_spare:
  assumes s: "len cp = n \<and> length (cells cp) = n + (bo + 1) \<and> drop n (cells cp) = replicate (bo + 1) 0"
    and w: "n + bo + 1 < 2 ^ 64"
    and b: "blindPoly q rnd cp n bo = Inr bp"
  shows "len bp = n + bo + 1 \<and> agreeOnRoots q n (coefficients bp) (coefficients cp)"
proof -
  from s have c: "n + bo + 1 \<le> cap cp" by (simp add: cap_def)
  from blindPoly_Inr [OF c w, of q rnd] b have l: "len bp = n + bo + 1"
    and e: "\<And>x. evalPoly q (coefficients bp) x
                  = (evalPoly q (take (n + bo + 1) (cells cp)) x
                      + evalPoly q (map (\<lambda>i. rnd i mod q) [0..<bo + 1]) x * (x ^ n - 1)) mod q"
    by auto
  have "evalPoly q (coefficients bp) x = evalPoly q (coefficients cp) x"
    if r: "x ^ n mod q = 1 mod q" for x
  proof -
    have "evalPoly q (coefficients bp) x = evalPoly q (take (n + bo + 1) (cells cp)) x mod q"
      by (rule blinded_on_roots [OF e r])
    also have "\<dots> = evalPoly q (take (n + (bo + 1)) (cells cp)) x" by (simp add: add.assoc)
    also have "\<dots> = evalPoly q (coefficients cp) x" by (rule spare_evalPoly [OF s])
    finally show ?thesis .
  qed
  with l show ?thesis by (simp add: agreeOnRoots_def)
qed

text \<open>
  Claim C8. \<^verbatim>\<open>blindPoly(cp, rou, bo)\<close>, for a polynomial of degree at most \<open>rou + bo\<close> held
  in the first \<open>rou + bo + 1\<close> cells of a slice of that capacity at least: it returns a
  slice of length \<open>rou + bo + 1\<close> on the same memory whose polynomial is
  \<open>cp + Q(X) \<cdot> (X^rou - 1)\<close> in the field, where \<open>Q\<close> has the \<open>bo + 1\<close> coefficients drawn at
  random (degree \<open>bo\<close>); so the result and \<open>cp\<close> take the same value at every \<open>rou\<close>-th root
  of unity. The cells of \<open>cp\<close> taken as its coefficients are the first \<open>rou + bo + 1\<close> ones;
  they are the polynomial of the slice when it is no longer than that and its spare
  cells are zero. In \<^verbatim>\<open>Prove\<close>, whenever it returns a proof: the three wire polynomials
  are in slices of length \<open>N\<close> with two spare zero cells and are blinded with \<open>bo = 1\<close>,
  giving polynomials of \<open>N + 2\<close> coefficients (degree at most \<open>N + 1\<close>) that agree with
  the wires on the \<open>N\<close>-th roots of unity, and \<open>LRO\<close> holds the commitments to them; \<open>z\<close>,
  computed from the challenge \<open>gamma\<close>, is in a slice with three spare zero cells and is
  blinded with \<open>bo = 2\<close>, and \<open>Z\<close> is the commitment to the result.
\<close>

theorem blindPoly_blinds:
  fixes K :: "'d Kernels"
  shows
    "(rou + bo + 1 \<le> cap cp \<and> rou + bo + 1 < 2 ^ 64 \<longrightarrow>
        (\<exists>res. blindPoly q rnd cp rou bo = Inr res
           \<and> len res = rou + bo + 1 \<and> cap res = cap cp
           \<and> length (map (\<lambda>i. rnd i mod q) [0..<bo + 1]) = bo + 1
           \<and> (\<forall>x. evalPoly q (coefficients res) x
                   = (evalPoly q (take (rou + bo + 1) (cells cp)) x
                        + evalPoly q (map (\<lambda>i. rnd i mod q) [0..<bo + 1]) x * (x ^ rou - 1)) mod q)
           \<and> agreeOnRoots q rou (coefficients res) (take (rou + bo + 1) (cells cp))
           \<and> (len cp \<le> rou + bo + 1 \<and> drop (len cp) (take (rou + bo + 1) (cells cp))
                   = replicate (rou + bo + 1 - len cp) 0 \<longrightarrow>
                (\<forall>x. evalPoly q (take (rou + bo + 1) (cells cp)) x
                       = evalPoly q (coefficients cp) x))))
   \<and> (Prove K rnd w = (fs, Ok pf) \<and> Cardinality K + 3 < 2 ^ 64 \<longrightarrow>
        (\<exists>sol ll lr lo bl br bo' g z.
           Solve K w = Inr sol \<and> computeLRO K sol = (ll, lr, lo)
         \<and> blindPoly (FieldOrder K) rnd (canonicalWire K ll) (Cardinality K) 1 = Inr bl
         \<and> blindPoly (FieldOrder K) (\<lambda>i. rnd (i + 2)) (canonicalWire K lr) (Cardinality K) 1 = Inr br
         \<and> blindPoly (FieldOrder K) (\<lambda>i. rnd (i + 4)) (canonicalWire K lo) (Cardinality K) 1 = Inr bo'
         \<and> map (\<lambda>p. Commit K (coefficients p)) [bl, br, bo'] = map Inr (LRO pf)
         \<and> len bl = Cardinality K + 2 \<and> len br = Cardinality K + 2 \<and> len bo' = Cardinality K + 2
         \<and> agreeOnRoots (FieldOrder K) (Cardinality K) (coefficients bl) (coefficients (canonicalWire K ll))
         \<and> agreeOnRoots (FieldOrder K) (Cardinality K) (coefficients br) (coefficients (canonicalWire K lr))
         \<and> agreeOnRoots (FieldOrder K) (Cardinality K) (coefficients bo') (coefficients (canonicalWire K lo))
         \<and> g = SetBytes K (challenges fs ! 0)
         \<and> blindPoly (FieldOrder K) (\<lambda>i. rnd (i + 6)) (toCanonical K (computeZ K ll lr lo g))
              (Cardinality K) 2 = Inr z
         \<and> Commit K (coefficients z) = Inr (Z pf)
         \<and> len z = Cardinality K + 3
         \<and> agreeOnRoots (FieldOrder K) (Cardinality K) (coefficients z)
              (coefficients (toCanonical K (computeZ K ll lr lo g)))))"
proof (intro conjI impI)
  assume "rou + bo + 1 \<le> cap cp \<and> rou + bo + 1 < 2 ^ 64"
  then have c: "rou + bo + 1 \<le> cap cp" and w: "rou + bo + 1 < 2 ^ 64" by simp_all
  from blindPoly_Inr [OF c w, of q rnd] obtain res where
    b: "blindPoly q rnd cp rou bo = Inr res" and l: "len res = rou + bo + 1"
    and cp: "cap res = cap cp"
    and e: "\<And>x. evalPoly q (coefficients res) x
                  = (evalPoly q (take (rou + bo + 1) (cells cp)) x
                      + evalPoly q (map (\<lambda>i. rnd i mod q) [0..<bo + 1]) x * (x ^ rou - 1)) mod q"
    by auto
  have a: "agreeOnRoots q rou (coefficients res) (take (rou + bo + 1) (cells cp))"
    unfolding agreeOnRoots_def
  proof (intro allI impI)
    fix x :: int assume r: "x ^ rou mod q = 1 mod q"
    from blinded_on_roots [OF e r]
    show "evalPoly q (coefficients res) x = evalPoly q (take (rou + bo + 1) (cells cp)) x"
      by simp
  qed
  have s: "\<forall>x. evalPoly q (take (rou + bo + 1) (cells cp)) x = evalPoly q (coefficients cp) x"
    if h: "len cp \<le> rou + bo + 1 \<and> drop (len cp) (take (rou + bo + 1) (cells cp))
                   = replicate (rou + bo + 1 - len cp) 0"
  proof
    fix x
    let ?t = "take (rou + bo + 1) (cells cp)"
    have t1: "take (len cp) ?t = coefficients cp"
      using h by (simp add: coefficients_def min_def)
    from h have t2: "drop (len cp) ?t = replicate (rou + bo + 1 - len cp) 0" by simp
    have "?t = coefficients cp @ replicate (rou + bo + 1 - len cp) 0"
      by (metis append_take_drop_id t1 t2)
    then show "evalPoly q ?t x = evalPoly q (coefficients cp) x"
      by (metis evalPoly_append_zeros)
  qed
  have lq: "length (map (\<lambda>i. rnd i mod q) [0..<bo + 1]) = bo + 1" by simp
  from b l cp lq e a s
  show "\<exists>res. blindPoly q rnd cp rou bo = Inr res
           \<and> len res = rou + bo + 1 \<and> cap res = cap cp
           \<and> length (map (\<lambda>i. rnd i mod q) [0..<bo + 1]) = bo + 1
           \<and> (\<forall>x. evalPoly q (coefficients res) x
                   = (evalPoly q (take (rou + bo + 1) (cells cp)) x
                        + evalPoly q (map (\<lambda>i. rnd i mod q) [0..<bo + 1]) x * (x ^ rou - 1)) mod q)
           \<and> agreeOnRoots q rou (coefficients res) (take (rou + bo + 1) (cells cp))
           \<and> (len cp \<le> rou + bo + 1 \<and> drop (len cp) (take (rou + bo + 1) (cells cp))
                   = replicate (rou + bo + 1 - len cp) 0 \<longrightarrow>
                (\<forall>x. evalPoly q (take (rou + bo + 1) (cells cp)) x
                       = evalPoly q (coefficients cp) x))"
    by blast
next
  let ?N = "Cardinality K" and ?q = "FieldOrder K"
  assume "Prove K rnd w = (fs, Ok pf) \<and> Cardinality K + 3 < 2 ^ 64"
  then have p: "Prove K rnd w = (fs, Ok pf)" and n: "?N + 3 < 2 ^ 64" by simp_all
  from n have n1: "?N + 1 + 1 < 2 ^ 64" and n2: "?N + 2 + 1 < 2 ^ 64" by simp_all
  from Prove_Ok [OF p] obtain sol and r1 :: "'d round1" and r2 :: "'d round2" and l0 l1 l2 where
    s: "Solve K w = Inr sol" and
    lro: "computeLRO K sol = (wiresL r1, wiresR r1, wiresO r1)" and
    b1: "blindPoly ?q rnd (canonicalWire K (wiresL r1)) ?N 1 = Inr (bcl r1)" and
    b2: "blindPoly ?q (\<lambda>i. rnd (i + 2)) (canonicalWire K (wiresR r1)) ?N 1 = Inr (bcr r1)" and
    b3: "blindPoly ?q (\<lambda>i. rnd (i + 4)) (canonicalWire K (wiresO r1)) ?N 1 = Inr (bco r1)" and
    c: "Commit K (coefficients (bcl r1)) = Inr l0" "Commit K (coefficients (bcr r1)) = Inr l1"
       "Commit K (coefficients (bco r1)) = Inr l2" "LRO pf = [l0, l1, l2]" and
    g: "gamma r1 = SetBytes K (challenges fs ! 0)" and
    bz: "blindPoly ?q (\<lambda>i. rnd (i + 6))
           (toCanonical K (computeZ K (wiresL r1) (wiresR r1) (wiresO r1) (gamma r1))) ?N 2
         = Inr (bz r2)" and
    cz: "Commit K (coefficients (bz r2)) = Inr (Z pf)"
    by metis
  have e3: "(2::nat) + 1 = 3" by simp
  have sw: "len (canonicalWire K l) = ?N \<and> length (cells (canonicalWire K l)) = ?N + (1 + 1)
     \<and> drop ?N (cells (canonicalWire K l)) = replicate (1 + 1) 0" for l
    unfolding one_add_one by (rule canonicalWire_spare)
  have sz: "len (toCanonical K (computeZ K l r o' x)) = ?N
     \<and> length (cells (toCanonical K (computeZ K l r o' x))) = ?N + (2 + 1)
     \<and> drop ?N (cells (toCanonical K (computeZ K l r o' x))) = replicate (2 + 1) 0" for l r o' x
    unfolding e3 by (rule computeZ_spare)
  note k1 = blindPoly_spare [OF sw n1 b1] and k2 = blindPoly_spare [OF sw n1 b2]
    and k3 = blindPoly_spare [OF sw n1 b3] and kz = blindPoly_spare [OF sz n2 bz]
  have cm: "map (\<lambda>p. Commit K (coefficients p)) [bcl r1, bcr r1, bco r1] = map Inr (LRO pf)"
    using c by simp
  show "\<exists>sol ll lr lo bl br bo' g z.
           Solve K w = Inr sol \<and> computeLRO K sol = (ll, lr, lo)
         \<and> blindPoly (FieldOrder K) rnd (canonicalWire K ll) (Cardinality K) 1 = Inr bl
         \<and> blindPoly (FieldOrder K) (\<lambda>i. rnd (i + 2)) (canonicalWire K lr) (Cardinality K) 1 = Inr br
         \<and> blindPoly (FieldOrder K) (\<lambda>i. rnd (i + 4)) (canonicalWire K lo) (Cardinality K) 1 = Inr bo'
         \<and> map (\<lambda>p. Commit K (coefficients p)) [bl, br, bo'] = map Inr (LRO pf)
         \<and> len bl = Cardinality K + 2 \<and> len br = Cardinality K + 2 \<and> len bo' = Cardinality K + 2
         \<and> agreeOnRoots (FieldOrder K) (Cardinality K) (coefficients bl) (coefficients (canonicalWire K ll))
         \<and> agreeOnRoots (FieldOrder K) (Cardinality K) (coefficients br) (coefficients (canonicalWire K lr))
         \<and> agreeOnRoots (FieldOrder K) (Cardinality K) (coefficients bo') (coefficients (canonicalWire K lo))
         \<and> g = SetBytes K (challenges fs ! 0)
         \<and> blindPoly (FieldOrder K) (\<lambda>i. rnd (i + 6)) (toCanonical K (computeZ K ll lr lo g))
              (Cardinality K) 2 = Inr z
         \<and> Commit K (coefficients z) = Inr (Z pf)
         \<and> len z = Cardinality K + 3
         \<and> agreeOnRoots (FieldOrder K) (Cardinality K) (coefficients z)
              (coefficients (toCanonical K (computeZ K ll lr lo g)))"
    apply (rule exI [of _ sol], rule exI [of _ "wiresL r1"], rule exI [of _ "wiresR r1"])
    apply (rule exI [of _ "wiresO r1"], rule exI [of _ "bcl r1"], rule exI [of _ "bcr r1"])
    apply (rule exI [of _ "bco r1"], rule exI [of _ "gamma r1"], rule exI [of _ "bz r2"])
    using s lro b1 b2 b3 cm k1 k2 k3 g bz cz kz by simp
qed

theorem blindPoly_blinds_witness:
  "4 + 1 + 1 \<le> cap \<lparr>cells = [4, 3, 2, 1, 0, 0], len = 4\<rparr> \<and> (4::nat) + 1 + 1 < 2 ^ 64
   \<and> blindPoly 13 exampleRnd \<lparr>cells = [4, 3, 2, 1, 0, 0], len = 4\<rparr> 4 1
        = Inr \<lparr>cells = [1, 12, 2, 1, 3, 4], len = 6\<rparr>
   \<and> (5::int) ^ 4 mod 13 = 1 mod 13
   \<and> evalPoly 13 [1, 12, 2, 1, 3, 4] 5 = evalPoly 13 [4, 3, 2, 1, 0, 0] 5
   \<and> evalPoly 13 [4, 3, 2, 1, 0, 0] 5 = evalPoly 13 [4, 3, 2, 1] 5
   \<and> snd (Prove exampleKernels exampleRnd exampleWitness)
        = Ok \<lparr>LRO = [9, 6, 6], Z = 0, H = [9, 0, 0],
              BatchedProof = \<lparr>BatchH = 0, ClaimedValues = [1, 11, 1, 11, 3, 0, 0]\<rparr>,
              ZShiftedOpening = \<lparr>OpeningH = 0, ClaimedValue = 9\<rparr>\<rparr>
   \<and> Cardinality exampleKernels + 3 < 2 ^ 64
   \<and> (\<exists>bl z. blindPoly 13 exampleRnd (canonicalWire exampleKernels [1, 2, 3, 4]) 4 1 = Inr bl
         \<and> len bl = 6 \<and> Commit exampleKernels (coefficients bl) = Inr 9
         \<and> agreeOnRoots 13 4 (coefficients bl) [4, 3, 2, 1]
         \<and> blindPoly 13 (\<lambda>i. exampleRnd (i + 6))
              (toCanonical exampleKernels
                 (computeZ exampleKernels [1, 2, 3, 4] [4, 3, 2, 1] [1, 4, 9, 3] 11)) 4 2 = Inr z
         \<and> len z = 7 \<and> Commit exampleKernels (coefficients z) = Inr 0)"
proof -
  let ?cp = "\<lparr>cells = [4, 3, 2, 1, 0, 0], len = 4\<rparr>"
  let ?fs = "\<lparr>hashFS = SHA256, labels = [''gamma'', ''alpha'', ''zeta''],
       bindings = [[9, 6, 6], [0], [9, 0, 0]], challenges = [[24], [30], [219]],
       isComputed = [True, True, True],
       calls = [CallBind ''gamma'' [9], CallBind ''gamma'' [6], CallBind ''gamma'' [6],
                CallComputeChallenge ''gamma'', CallBind ''alpha'' [0],
                CallComputeChallenge ''alpha'', CallBind ''zeta'' [9], CallBind ''zeta'' [0],
                CallBind ''zeta'' [0], CallComputeChallenge ''zeta'']\<rparr>"
  let ?pf = "\<lparr>LRO = [9, 6, 6], Z = 0, H = [9, 0, 0],
              BatchedProof = \<lparr>BatchH = 0, ClaimedValues = [1, 11, 1, 11, 3, 0, 0]\<rparr>,
              ZShiftedOpening = \<lparr>OpeningH = 0, ClaimedValue = 9\<rparr>\<rparr>"
  have h1: "4 + 1 + 1 \<le> cap ?cp \<and> (4::nat) + 1 + 1 < 2 ^ 64" by (simp add: cap_def)
  have h2: "Prove exampleKernels exampleRnd exampleWitness = (?fs, Ok ?pf)
              \<and> Cardinality exampleKernels + 3 < 2 ^ 64"
    by (simp add: Prove_example)
  note t = blindPoly_blinds [of 4 1 "?cp" 13 exampleRnd exampleKernels
      exampleWitness "?fs" "?pf"]
  have sp: "len ?cp \<le> 4 + 1 + 1 \<and> drop (len ?cp) (take (4 + 1 + 1) (cells ?cp))
              = replicate (4 + 1 + 1 - len ?cp) 0"
    by (simp add: numeral_2_eq_2)
  from t h1 sp obtain res where
    b: "blindPoly 13 exampleRnd ?cp 4 1 = Inr res" and
    a: "agreeOnRoots 13 4 (coefficients res) (take (4 + 1 + 1) (cells ?cp))" and
    z: "\<forall>x. evalPoly 13 (take (4 + 1 + 1) (cells ?cp)) x = evalPoly 13 (coefficients ?cp) x"
    by blast
  from b have res: "res = \<lparr>cells = [1, 12, 2, 1, 3, 4], len = 6\<rparr>"
    unfolding example_blinded(1) by simp
  have r: "(5::int) ^ 4 mod 13 = 1 mod 13" by simp
  from a r have e1: "evalPoly 13 [1, 12, 2, 1, 3, 4] 5 = evalPoly 13 [4, 3, 2, 1, 0, 0] 5"
    unfolding agreeOnRoots_def res by (simp add: coefficients_def)
  from z have e2: "evalPoly 13 [4, 3, 2, 1, 0, 0] 5 = evalPoly 13 [4, 3, 2, 1] 5"
    by (simp add: coefficients_def)
  from t h2 obtain sol ll lr lo bl g z where
    s: "Solve exampleKernels exampleWitness = Inr sol" and
    l: "computeLRO exampleKernels sol = (ll, lr, lo)" and
    b1: "blindPoly (FieldOrder exampleKernels) exampleRnd (canonicalWire exampleKernels ll)
           (Cardinality exampleKernels) 1 = Inr bl" and
    c1: "Commit exampleKernels (coefficients bl) = Inr (LRO ?pf ! 0)" and
    l1: "len bl = Cardinality exampleKernels + 2" and
    a1: "agreeOnRoots (FieldOrder exampleKernels) (Cardinality exampleKernels) (coefficients bl)
           (coefficients (canonicalWire exampleKernels ll))" and
    g: "g = SetBytes exampleKernels (challenges ?fs ! 0)" and
    bz: "blindPoly (FieldOrder exampleKernels) (\<lambda>i. exampleRnd (i + 6))
           (toCanonical exampleKernels (computeZ exampleKernels ll lr lo g))
           (Cardinality exampleKernels) 2 = Inr z" and
    cz: "Commit exampleKernels (coefficients z) = Inr (Z ?pf)" and
    lz: "len z = Cardinality exampleKernels + 3"
    by force
  from s have sol: "sol = exampleWitness" by (simp add: example_solve del: example_kernels)
  from l have w: "ll = [1, 2, 3, 4]" "lr = [4, 3, 2, 1]" "lo = [1, 4, 9, 3]"
    unfolding sol example_lro by simp_all
  have g11: "g = 11" unfolding g by simp
  have cw: "coefficients (canonicalWire exampleKernels [1, 2, 3, 4]) = [4, 3, 2, 1]"
    by (simp add: example_wires coefficients_def)
  from b1 c1 l1 a1 bz cz lz
  have "blindPoly 13 exampleRnd (canonicalWire exampleKernels [1, 2, 3, 4]) 4 1 = Inr bl
         \<and> len bl = 6 \<and> Commit exampleKernels (coefficients bl) = Inr 9
         \<and> agreeOnRoots 13 4 (coefficients bl) [4, 3, 2, 1]
         \<and> blindPoly 13 (\<lambda>i. exampleRnd (i + 6))
              (toCanonical exampleKernels
                 (computeZ exampleKernels [1, 2, 3, 4] [4, 3, 2, 1] [1, 4, 9, 3] 11)) 4 2 = Inr z
         \<and> len z = 7 \<and> Commit exampleKernels (coefficients z) = Inr 0"
    unfolding w g11 cw example_kernels(1,2) by simp
  then have ex: "\<exists>bl z. blindPoly 13 exampleRnd (canonicalWire exampleKernels [1, 2, 3, 4]) 4 1 = Inr bl
         \<and> len bl = 6 \<and> Commit exampleKernels (coefficients bl) = Inr 9
         \<and> agreeOnRoots 13 4 (coefficients bl) [4, 3, 2, 1]
         \<and> blindPoly 13 (\<lambda>i. exampleRnd (i + 6))
              (toCanonical exampleKernels
                 (computeZ exampleKernels [1, 2, 3, 4] [4, 3, 2, 1] [1, 4, 9, 3] 11)) 4 2 = Inr z
         \<and> len z = 7 \<and> Commit exampleKernels (coefficients z) = Inr 0"
    by blast
  from h2 have sn: "snd (Prove exampleKernels exampleRnd exampleWitness) = Ok ?pf" by simp
  from h1 b [unfolded res] r e1 e2 sn h2 ex show ?thesis by blast
qed

text \<open>
  Claim C3. The transcript of \<^verbatim>\<open>Prove\<close> is created for SHA-256 with exactly the labels
  "gamma", "alpha", "zeta". On every run, whether it ends with a proof, an error or a
  panic, the calls it makes to the transcript are the first calls of the sequence: bind
  three times to "gamma", derive "gamma"; bind once to "alpha", derive "alpha"; bind three
  times to "zeta", derive "zeta". So \<open>gamma\<close> is never derived before the three binds to
  it, \<open>alpha\<close> never before \<open>gamma\<close> and its bind, \<open>zeta\<close> never before \<open>alpha\<close> and the three
  binds. On a run that returns a proof the calls are that whole sequence, the bytes bound
  being the marshalled \<open>LRO[0], LRO[1], LRO[2]\<close>, then \<open>Z\<close>, then \<open>H[0], H[1], H[2]\<close>, in this
  order; each challenge is the hash of its label, of the challenge before, and of these
  bytes, and the prover uses \<open>gamma\<close> for the accumulator \<open>z\<close> whose commitment is \<open>Z\<close>.
\<close>

theorem Prove_transcript_order:
  fixes K :: "'d Kernels"
  assumes "Prove K rnd w = (fs, out)"
  shows "hashFS fs = SHA256 \<and> labels fs = [''gamma'', ''alpha'', ''zeta'']
    \<and> (\<exists>n. map callShape (calls fs) = take n canonicalOrder)
    \<and> (\<forall>pf. out = Ok pf \<longrightarrow>
          length (LRO pf) = 3 \<and> length (H pf) = 3
        \<and> calls fs =
            [CallBind ''gamma'' (Marshal K (LRO pf ! 0)), CallBind ''gamma'' (Marshal K (LRO pf ! 1)),
             CallBind ''gamma'' (Marshal K (LRO pf ! 2)), CallComputeChallenge ''gamma'',
             CallBind ''alpha'' (Marshal K (Z pf)), CallComputeChallenge ''alpha'',
             CallBind ''zeta'' (Marshal K (H pf ! 0)), CallBind ''zeta'' (Marshal K (H pf ! 1)),
             CallBind ''zeta'' (Marshal K (H pf ! 2)), CallComputeChallenge ''zeta'']
        \<and> challenges fs ! 0
            = hashFn K SHA256 (bytesOf ''gamma'' @ Marshal K (LRO pf ! 0) @ Marshal K (LRO pf ! 1)
                                 @ Marshal K (LRO pf ! 2))
        \<and> challenges fs ! 1
            = hashFn K SHA256 (bytesOf ''alpha'' @ challenges fs ! 0 @ Marshal K (Z pf))
        \<and> challenges fs ! 2
            = hashFn K SHA256 (bytesOf ''zeta'' @ challenges fs ! 1 @ Marshal K (H pf ! 0)
                                 @ Marshal K (H pf ! 1) @ Marshal K (H pf ! 2))
        \<and> (\<exists>sol ll lr lo z.
              Solve K w = Inr sol \<and> computeLRO K sol = (ll, lr, lo)
            \<and> blindPoly (FieldOrder K) (\<lambda>i. rnd (i + 6))
                 (toCanonical K (computeZ K ll lr lo (SetBytes K (challenges fs ! 0))))
                 (Cardinality K) 2 = Inr z
            \<and> Commit K (coefficients z) = Inr (Z pf)))"
proof (intro conjI allI impI)
  let ?fs0 = "NewTranscript SHA256 [''gamma'', ''alpha'', ''zeta'']"
  from assms emits_Prove [of K w rnd] obtain new n where
    h: "hashFS fs = hashFS ?fs0" and l: "labels fs = labels ?fs0"
    and c: "calls fs = calls ?fs0 @ new" and m: "map callShape new = take n canonicalOrder"
    unfolding emits_def Prove_def by blast
  from h show "hashFS fs = SHA256" by (simp add: NewTranscript_def)
  from l show "labels fs = [''gamma'', ''alpha'', ''zeta'']" by (simp add: NewTranscript_def)
  from c m have "map callShape (calls fs) = take n canonicalOrder" by (simp add: NewTranscript_def)
  then show "\<exists>n. map callShape (calls fs) = take n canonicalOrder" ..
next
  fix pf assume "out = Ok pf"
  with assms have p: "Prove K rnd w = (fs, Ok pf)" by simp
  from Prove_Ok [OF p] obtain sol and r1 :: "'d round1" and r2 :: "'d round2" and l0 l1 l2 d0 d1 d2
    where s: "Solve K w = Inr sol" and
    lro: "computeLRO K sol = (wiresL r1, wiresR r1, wiresO r1)" and
    L: "LRO pf = [l0, l1, l2]" and
    g: "gamma r1 = SetBytes K (challenges fs ! 0)" and
    bz: "blindPoly (FieldOrder K) (\<lambda>i. rnd (i + 6))
           (toCanonical K (computeZ K (wiresL r1) (wiresR r1) (wiresO r1) (gamma r1)))
           (Cardinality K) 2 = Inr (bz r2)" and
    cz: "Commit K (coefficients (bz r2)) = Inr (Z pf)" and
    Hh: "H pf = [d0, d1, d2]" and
    f: "fs = \<lparr>hashFS = SHA256, labels = [''gamma'', ''alpha'', ''zeta''],
             bindings = [Marshal K l0 @ Marshal K l1 @ Marshal K l2, Marshal K (Z pf),
                         Marshal K d0 @ Marshal K d1 @ Marshal K d2],
             challenges =
               [hashFn K SHA256 (bytesOf ''gamma'' @ Marshal K l0 @ Marshal K l1 @ Marshal K l2),
                hashFn K SHA256 (bytesOf ''alpha''
                   @ hashFn K SHA256 (bytesOf ''gamma'' @ Marshal K l0 @ Marshal K l1 @ Marshal K l2)
                   @ Marshal K (Z pf)),
                hashFn K SHA256 (bytesOf ''zeta''
                   @ hashFn K SHA256 (bytesOf ''alpha''
                       @ hashFn K SHA256 (bytesOf ''gamma'' @ Marshal K l0 @ Marshal K l1 @ Marshal K l2)
                       @ Marshal K (Z pf))
                   @ Marshal K d0 @ Marshal K d1 @ Marshal K d2)],
             isComputed = [True, True, True],
             calls = [CallBind ''gamma'' (Marshal K l0), CallBind ''gamma'' (Marshal K l1),
                      CallBind ''gamma'' (Marshal K l2), CallComputeChallenge ''gamma'',
                      CallBind ''alpha'' (Marshal K (Z pf)), CallComputeChallenge ''alpha'',
                      CallBind ''zeta'' (Marshal K d0), CallBind ''zeta'' (Marshal K d1),
                      CallBind ''zeta'' (Marshal K d2), CallComputeChallenge ''zeta'']\<rparr>"
    by metis
  from L show "length (LRO pf) = 3" by simp
  from Hh show "length (H pf) = 3" by simp
  show "calls fs =
            [CallBind ''gamma'' (Marshal K (LRO pf ! 0)), CallBind ''gamma'' (Marshal K (LRO pf ! 1)),
             CallBind ''gamma'' (Marshal K (LRO pf ! 2)), CallComputeChallenge ''gamma'',
             CallBind ''alpha'' (Marshal K (Z pf)), CallComputeChallenge ''alpha'',
             CallBind ''zeta'' (Marshal K (H pf ! 0)), CallBind ''zeta'' (Marshal K (H pf ! 1)),
             CallBind ''zeta'' (Marshal K (H pf ! 2)), CallComputeChallenge ''zeta'']"
    by (subst f) (simp add: L Hh)
  show "challenges fs ! 0
            = hashFn K SHA256 (bytesOf ''gamma'' @ Marshal K (LRO pf ! 0) @ Marshal K (LRO pf ! 1)
                                 @ Marshal K (LRO pf ! 2))"
    by (subst f) (simp add: L)
  show "challenges fs ! 1
            = hashFn K SHA256 (bytesOf ''alpha'' @ challenges fs ! 0 @ Marshal K (Z pf))"
    by (subst f, subst f) simp
  show "challenges fs ! 2
            = hashFn K SHA256 (bytesOf ''zeta'' @ challenges fs ! 1 @ Marshal K (H pf ! 0)
                                 @ Marshal K (H pf ! 1) @ Marshal K (H pf ! 2))"
    by (subst f, subst f) (simp add: Hh)
  from s lro bz cz g
  show "\<exists>sol ll lr lo z.
              Solve K w = Inr sol \<and> computeLRO K sol = (ll, lr, lo)
            \<and> blindPoly (FieldOrder K) (\<lambda>i. rnd (i + 6))
                 (toCanonical K (computeZ K ll lr lo (SetBytes K (challenges fs ! 0))))
                 (Cardinality K) 2 = Inr z
            \<and> Commit K (coefficients z) = Inr (Z pf)"
    by auto
qed

theorem Prove_transcript_order_witness:
  "(case Prove exampleKernels exampleRnd exampleWitness of (fs, out) \<Rightarrow>
      out = Ok \<lparr>LRO = [9, 6, 6], Z = 0, H = [9, 0, 0],
                BatchedProof = \<lparr>BatchH = 0, ClaimedValues = [1, 11, 1, 11, 3, 0, 0]\<rparr>,
                ZShiftedOpening = \<lparr>OpeningH = 0, ClaimedValue = 9\<rparr>\<rparr>
    \<and> hashFS fs = SHA256 \<and> labels fs = [''gamma'', ''alpha'', ''zeta'']
    \<and> map callShape (calls fs) = canonicalOrder
    \<and> calls fs =
         [CallBind ''gamma'' [9], CallBind ''gamma'' [6], CallBind ''gamma'' [6],
          CallComputeChallenge ''gamma'', CallBind ''alpha'' [0], CallComputeChallenge ''alpha'',
          CallBind ''zeta'' [9], CallBind ''zeta'' [0], CallBind ''zeta'' [0],
          CallComputeChallenge ''zeta'']
    \<and> challenges fs ! 0 = hashFn exampleKernels SHA256 (bytesOf ''gamma'' @ [9] @ [6] @ [6])
    \<and> challenges fs ! 1 = hashFn exampleKernels SHA256 (bytesOf ''alpha'' @ challenges fs ! 0 @ [0])
    \<and> challenges fs ! 2
         = hashFn exampleKernels SHA256 (bytesOf ''zeta'' @ challenges fs ! 1 @ [9] @ [0] @ [0]))"
proof -
  let ?fs = "\<lparr>hashFS = SHA256, labels = [''gamma'', ''alpha'', ''zeta''],
       bindings = [[9, 6, 6], [0], [9, 0, 0]], challenges = [[24], [30], [219]],
       isComputed = [True, True, True],
       calls = [CallBind ''gamma'' [9], CallBind ''gamma'' [6], CallBind ''gamma'' [6],
                CallComputeChallenge ''gamma'', CallBind ''alpha'' [0],
                CallComputeChallenge ''alpha'', CallBind ''zeta'' [9], CallBind ''zeta'' [0],
                CallBind ''zeta'' [0], CallComputeChallenge ''zeta'']\<rparr>"
  let ?pf = "\<lparr>LRO = [9, 6, 6], Z = 0, H = [9, 0, 0],
              BatchedProof = \<lparr>BatchH = 0, ClaimedValues = [1, 11, 1, 11, 3, 0, 0]\<rparr>,
              ZShiftedOpening = \<lparr>OpeningH = 0, ClaimedValue = 9\<rparr>\<rparr>"
  have p: "Prove exampleKernels exampleRnd exampleWitness = (?fs, Ok ?pf)"
    by (rule Prove_example)
  from Prove_transcript_order [OF p]
  have t: "hashFS ?fs = SHA256 \<and> labels ?fs = [''gamma'', ''alpha'', ''zeta'']
    \<and> calls ?fs =
            [CallBind ''gamma'' (Marshal exampleKernels (LRO ?pf ! 0)),
             CallBind ''gamma'' (Marshal exampleKernels (LRO ?pf ! 1)),
             CallBind ''gamma'' (Marshal exampleKernels (LRO ?pf ! 2)), CallComputeChallenge ''gamma'',
             CallBind ''alpha'' (Marshal exampleKernels (Z ?pf)), CallComputeChallenge ''alpha'',
             CallBind ''zeta'' (Marshal exampleKernels (H ?pf ! 0)),
             CallBind ''zeta'' (Marshal exampleKernels (H ?pf ! 1)),
             CallBind ''zeta'' (Marshal exampleKernels (H ?pf ! 2)), CallComputeChallenge ''zeta'']
    \<and> challenges ?fs ! 0
            = hashFn exampleKernels SHA256 (bytesOf ''gamma'' @ Marshal exampleKernels (LRO ?pf ! 0)
                 @ Marshal exampleKernels (LRO ?pf ! 1) @ Marshal exampleKernels (LRO ?pf ! 2))
    \<and> challenges ?fs ! 1
            = hashFn exampleKernels SHA256 (bytesOf ''alpha'' @ challenges ?fs ! 0
                 @ Marshal exampleKernels (Z ?pf))
    \<and> challenges ?fs ! 2
            = hashFn exampleKernels SHA256 (bytesOf ''zeta'' @ challenges ?fs ! 1
                 @ Marshal exampleKernels (H ?pf ! 0) @ Marshal exampleKernels (H ?pf ! 1)
                 @ Marshal exampleKernels (H ?pf ! 2))"
    by blast
  have s: "map callShape (calls ?fs) = canonicalOrder" by (simp add: canonicalOrder_def)
  from t s show ?thesis
    unfolding p by simp
qed

end
